theory Spec2Isabelle
  imports Complex_Main "HOL-Library.Multiset"
begin

section \<open>Data model\<close>

text \<open>
  The records follow the interfaces of \<open>types.ts\<close>. Identifiers are the strings the
  database generates, dates are milliseconds since the epoch (\<open>getTime()\<close>), and the
  untyped \<open>metadata\<close> objects, which no operation below reads, are left out.
\<close>

datatype bucket_type = STM | LTM | RL | DOCS | MISC

record memory_bucket =
  bucket_id :: string
  bucket_name :: string
  bucketType :: bucket_type

record memory_chunk =
  chunk_id :: string
  bucketId :: string
  chunk_text :: string
  embedding :: "real list"
  metaVector :: "real list"
  score :: real
  timestamp :: int
  lastAccessed :: int
  source :: string
  agentId :: "string option"
  accessCount :: int
  decayRate :: real

datatype link_type = semantic | causal | temporal | associative

record memory_link =
  link_id :: string
  sourceId :: string
  targetId :: string
  strength :: real
  linkType :: link_type
  createdAt :: int

text \<open>The tables behind the \<open>prisma\<close> client that the memory service reads and writes.\<close>

record store =
  memoryBucket :: "memory_bucket list"
  memoryChunk :: "memory_chunk list"
  memoryLink :: "memory_link list"

datatype error =
    BucketNotFound string
  | RecordNotFound string
  | UniqueConstraint string
  | Failure string

record decay_counts =
  processed :: nat
  decayed :: nat
  deleted :: nat

section \<open>Numbers\<close>

text \<open>
  The scores, similarities and vector components of the memory service are JavaScript
  numbers. Where a number is only compared, scaled by a decay factor or used as a sort key
  it is modelled as a real, without rounding. A division whose divisor is computed at run
  time goes through \<open>js_div\<close>, where \<open>None\<close> stands for the non-finite outcome of a
  division by zero (\<open>0 / 0\<close> is \<open>NaN\<close>). The cosine similarity, whose value depends on the
  rounding, is also modelled in double precision, further down.
\<close>

definition js_div :: "real \<Rightarrow> real \<Rightarrow> real option" where
  "js_div x y = (if y = 0 then None else Some (x / y))"

text \<open>
  \<open>Math.pow\<close> on a positive base is the real power. The bases of this program are the
  decay rates of the chunks, which are positive; the theorems on decay say so.
\<close>

definition Math_pow :: "real \<Rightarrow> real \<Rightarrow> real" where
  "Math_pow b e = b powr e"

text \<open>
  \<open>s || d\<close> on an optional number: \<open>undefined\<close>, \<open>NaN\<close> (both \<open>None\<close>) and \<open>0\<close> are
  falsy and give \<open>d\<close>.
\<close>

definition js_or :: "real option \<Rightarrow> real \<Rightarrow> real" where
  "js_or s d = (case s of None \<Rightarrow> d | Some v \<Rightarrow> if v = 0 then d else v)"

section \<open>Double-precision numbers\<close>

text \<open>
  The value of the cosine similarity depends on the rounding of the \<open>number\<close> type, so the
  function is modelled on IEEE 754 binary64 values: the finite ones, as the reals they
  denote, the two infinities and \<open>NaN\<close>. The two zeros are one value here: \<open>===\<close> does not
  tell them apart, and of the operations below only a division by zero depends on the sign
  of a zero.
\<close>

datatype double = Finite real | PosInf | NegInf | NaN

text \<open>
  Rounding to the nearest double, ties to the even significand. A double has 53
  significant bits; \<open>binade x\<close> is the binary exponent of \<open>x\<close>, never under that of the
  subnormal numbers, and \<open>ulp x\<close> is the distance between the doubles around \<open>x\<close>. A
  result that rounds to \<open>2 ^ 1024\<close> or beyond is an infinity.
\<close>

definition round_even :: "real \<Rightarrow> int" where
  "round_even t =
     (let f = \<lfloor>t\<rfloor>; d = t - of_int f
      in if d < 1 / 2 then f else if 1 / 2 < d then f + 1 else if even f then f else f + 1)"

definition binade :: "real \<Rightarrow> int" where
  "binade x = max \<lfloor>log 2 \<bar>x\<bar>\<rfloor> (- 1022)"

definition ulp :: "real \<Rightarrow> real" where
  "ulp x = 2 powr (of_int (binade x) - 52)"

definition fl :: "real \<Rightarrow> double" where
  "fl x =
     (if x = 0 then Finite 0
      else let y = of_int (round_even (x / ulp x)) * ulp x
           in if 2 ^ 1024 \<le> \<bar>y\<bar> then (if 0 < x then PosInf else NegInf) else Finite y)"

text \<open>
  \<open>+\<close>, \<open>*\<close>, \<open>/\<close> and \<open>Math.sqrt\<close> on numbers: the exact result, rounded, with the
  special values of the standard (the square root is the correctly rounded one of the
  processor). A zero divisor is taken as \<open>+0\<close>.
\<close>

fun dadd :: "double \<Rightarrow> double \<Rightarrow> double" where
  "dadd (Finite x) (Finite y) = fl (x + y)"
| "dadd NaN _ = NaN"
| "dadd _ NaN = NaN"
| "dadd PosInf NegInf = NaN"
| "dadd NegInf PosInf = NaN"
| "dadd PosInf _ = PosInf"
| "dadd _ PosInf = PosInf"
| "dadd NegInf _ = NegInf"
| "dadd _ NegInf = NegInf"

fun dmul :: "double \<Rightarrow> double \<Rightarrow> double" where
  "dmul (Finite x) (Finite y) = fl (x * y)"
| "dmul NaN _ = NaN"
| "dmul _ NaN = NaN"
| "dmul (Finite x) PosInf = (if x = 0 then NaN else if 0 < x then PosInf else NegInf)"
| "dmul (Finite x) NegInf = (if x = 0 then NaN else if 0 < x then NegInf else PosInf)"
| "dmul PosInf (Finite y) = (if y = 0 then NaN else if 0 < y then PosInf else NegInf)"
| "dmul NegInf (Finite y) = (if y = 0 then NaN else if 0 < y then NegInf else PosInf)"
| "dmul PosInf PosInf = PosInf"
| "dmul NegInf NegInf = PosInf"
| "dmul PosInf NegInf = NegInf"
| "dmul NegInf PosInf = NegInf"

fun ddiv :: "double \<Rightarrow> double \<Rightarrow> double" where
  "ddiv (Finite x) (Finite y) =
     (if y = 0 then (if x = 0 then NaN else if 0 < x then PosInf else NegInf) else fl (x / y))"
| "ddiv NaN _ = NaN"
| "ddiv _ NaN = NaN"
| "ddiv (Finite x) _ = Finite 0"
| "ddiv PosInf (Finite y) = (if 0 \<le> y then PosInf else NegInf)"
| "ddiv NegInf (Finite y) = (if 0 \<le> y then NegInf else PosInf)"
| "ddiv _ _ = NaN"

fun Math_sqrt :: "double \<Rightarrow> double" where
  "Math_sqrt (Finite x) = (if x < 0 then NaN else fl (sqrt x))"
| "Math_sqrt PosInf = PosInf"
| "Math_sqrt _ = NaN"

section \<open>Sorting with a comparator\<close>

text \<open>
  \<open>Array.prototype.sort\<close> is stable: \<open>cmp a b < 0\<close> puts \<open>a\<close> first, \<open>cmp a b > 0\<close> puts
  \<open>b\<close> first, and elements that compare equal keep their order. For a comparator that is
  a consistent ordering every stable algorithm returns the same list; insertion from the
  right computes it.
\<close>

fun js_insert :: "('a \<Rightarrow> 'a \<Rightarrow> real) \<Rightarrow> 'a \<Rightarrow> 'a list \<Rightarrow> 'a list" where
  "js_insert cmp x [] = [x]"
| "js_insert cmp x (y # ys) = (if cmp x y \<le> 0 then x # y # ys else y # js_insert cmp x ys)"

definition js_sort :: "('a \<Rightarrow> 'a \<Rightarrow> real) \<Rightarrow> 'a list \<Rightarrow> 'a list" where
  "js_sort cmp xs = foldr (js_insert cmp) xs []"

section \<open>Cosine similarity\<close>

text \<open>
  The body of the \<open>for\<close> statement of \<open>calculateCosineSimilarity\<close>: one pass over both
  vectors, accumulating \<open>dotProduct\<close>, \<open>norm1\<close> and \<open>norm2\<close>. It only runs when the lengths
  agree. Every \<open>+=\<close> and every product rounds.
\<close>

fun cosine_loop ::
  "double list \<Rightarrow> double list \<Rightarrow> double \<times> double \<times> double \<Rightarrow> double \<times> double \<times> double" where
  "cosine_loop (x # xs) (y # ys) (dotProduct, norm1, norm2) =
     cosine_loop xs ys (dadd dotProduct (dmul x y), dadd norm1 (dmul x x), dadd norm2 (dmul y y))"
| "cosine_loop _ _ acc = acc"

definition calculateCosineSimilarity :: "double list \<Rightarrow> double list \<Rightarrow> double" where
  "calculateCosineSimilarity vec1 vec2 =
     (if length vec1 \<noteq> length vec2 then Finite 0
      else case cosine_loop vec1 vec2 (Finite 0, Finite 0, Finite 0) of
        (dotProduct, norm1, norm2) \<Rightarrow>
          if norm1 = Finite 0 \<or> norm2 = Finite 0 then Finite 0
          else ddiv dotProduct (dmul (Math_sqrt norm1) (Math_sqrt norm2)))"

text \<open>
  The same statements with the arithmetic of the reals, no operation rounding. The
  retrieval functions below attach this value to a chunk and sort by it; what is proved of
  them is the order of their results by the attached value. What rounding does to the value
  is proved of \<open>calculateCosineSimilarity\<close> itself.
\<close>

fun cosine_loop_exact :: "real list \<Rightarrow> real list \<Rightarrow> real \<times> real \<times> real \<Rightarrow> real \<times> real \<times> real" where
  "cosine_loop_exact (x # xs) (y # ys) (dotProduct, norm1, norm2) =
     cosine_loop_exact xs ys (dotProduct + x * y, norm1 + x * x, norm2 + y * y)"
| "cosine_loop_exact _ _ acc = acc"

definition calculateCosineSimilarity_exact :: "real list \<Rightarrow> real list \<Rightarrow> real option" where
  "calculateCosineSimilarity_exact vec1 vec2 =
     (if length vec1 \<noteq> length vec2 then Some 0
      else case cosine_loop_exact vec1 vec2 (0, 0, 0) of
        (dotProduct, norm1, norm2) \<Rightarrow>
          if norm1 = 0 \<or> norm2 = 0 then Some 0
          else js_div dotProduct (sqrt norm1 * sqrt norm2))"

section \<open>The database client\<close>

text \<open>
  The operations of the \<open>prisma\<close> client the services call, on the tables of \<open>store\<close>.
  \<open>update\<close> and \<open>delete\<close> reject an identifier that has no row, \<open>create\<close> rejects
  one that has a row already.
\<close>

definition findUnique_bucket :: "store \<Rightarrow> string \<Rightarrow> memory_bucket option" where
  "findUnique_bucket s name = find (\<lambda>b. bucket_name b = name) (memoryBucket s)"

definition has_chunk :: "store \<Rightarrow> string \<Rightarrow> bool" where
  "has_chunk s i = (i \<in> set (map chunk_id (memoryChunk s)))"

definition create_chunk :: "memory_chunk \<Rightarrow> store \<Rightarrow> error + store" where
  "create_chunk c s =
     (if has_chunk s (chunk_id c) then Inl (UniqueConstraint (chunk_id c))
      else Inr (s\<lparr>memoryChunk := memoryChunk s @ [c]\<rparr>))"

definition update_chunk :: "string \<Rightarrow> (memory_chunk \<Rightarrow> memory_chunk) \<Rightarrow> store \<Rightarrow> error + store" where
  "update_chunk i f s =
     (if has_chunk s i
      then Inr (s\<lparr>memoryChunk := map (\<lambda>c. if chunk_id c = i then f c else c) (memoryChunk s)\<rparr>)
      else Inl (RecordNotFound i))"

definition delete_chunk :: "string \<Rightarrow> store \<Rightarrow> error + store" where
  "delete_chunk i s =
     (if has_chunk s i
      then Inr (s\<lparr>memoryChunk := filter (\<lambda>c. chunk_id c \<noteq> i) (memoryChunk s)\<rparr>)
      else Inl (RecordNotFound i))"

text \<open>
  \<open>orderBy: [{score: 'desc'}, {lastAccessed: 'desc'}]\<close> as a comparator. Rows that agree
  on both columns come back in table order.
\<close>

definition order_by_cmp :: "memory_chunk \<Rightarrow> memory_chunk \<Rightarrow> real" where
  "order_by_cmp a b =
     (if score b < score a then - 1
      else if score a < score b then 1
      else if lastAccessed b < lastAccessed a then - 1
      else if lastAccessed a < lastAccessed b then 1
      else 0)"

definition findMany_chunks :: "store \<Rightarrow> string \<Rightarrow> real \<Rightarrow> nat \<Rightarrow> memory_chunk list" where
  "findMany_chunks s bid minScore limit =
     take limit (js_sort order_by_cmp
       (filter (\<lambda>c. bucketId c = bid \<and> minScore \<le> score c) (memoryChunk s)))"

definition findFirst_link :: "store \<Rightarrow> string \<Rightarrow> string \<Rightarrow> error + memory_link option" where
  "findFirst_link s a b =
     Inr (find (\<lambda>l. (sourceId l = a \<and> targetId l = b) \<or> (sourceId l = b \<and> targetId l = a))
            (memoryLink s))"

section \<open>Memory service\<close>

text \<open>\<open>MEMORY_DECAY_RATES\<close>, selected by the nested conditional of \<open>addMemoryChunk\<close>.\<close>

definition decay_rate_of :: "bucket_type \<Rightarrow> real" where
  "decay_rate_of t = (if t = STM then 0.990 else if t = LTM then 0.999 else 0.995)"

text \<open>
  Modelled from the spec: the column defaults of the database schema, which is not part
  of the sources. A created chunk has \<open>score = 1.0\<close>, \<open>accessCount = 0\<close> and
  \<open>timestamp = lastAccessed = now\<close>. The identifier \<open>new_id\<close> is the one the database
  generates.
\<close>

definition addMemoryChunk ::
  "string \<Rightarrow> int \<Rightarrow> store \<Rightarrow> string \<Rightarrow> string \<Rightarrow> real list \<Rightarrow> real list \<Rightarrow> string \<Rightarrow> string option
     \<Rightarrow> error + (memory_chunk \<times> store)" where
  "addMemoryChunk new_id now s bucketName txt emb mv src agent =
     (case findUnique_bucket s bucketName of
        None \<Rightarrow> Inl (BucketNotFound bucketName)
      | Some bucket \<Rightarrow>
          (let chunk = \<lparr>chunk_id = new_id, bucketId = bucket_id bucket, chunk_text = txt,
                         embedding = emb, metaVector = mv, score = 1.0, timestamp = now,
                         lastAccessed = now, source = src, agentId = agent, accessCount = 0,
                         decayRate = decay_rate_of (bucketType bucket)\<rparr>
           in case create_chunk chunk s of
                Inl e \<Rightarrow> Inl e
              | Inr s' \<Rightarrow> Inr (chunk, s')))"

text \<open>The access update of \<open>getMemoriesFromBucket\<close>, one \<open>update\<close> per returned chunk.\<close>

fun touch_all :: "int \<Rightarrow> string list \<Rightarrow> store \<Rightarrow> error + store" where
  "touch_all now [] s = Inr s"
| "touch_all now (i # is) s =
     (case update_chunk i (\<lambda>c. c\<lparr>lastAccessed := now, accessCount := accessCount c + 1\<rparr>) s of
        Inl e \<Rightarrow> Inl e
      | Inr s' \<Rightarrow> touch_all now is s')"

text \<open>
  A returned chunk is paired with its \<open>similarity\<close> attribute, which is present only
  when a non-empty query embedding was given.
\<close>

definition similarity_cmp :: "memory_chunk \<times> real option \<Rightarrow> memory_chunk \<times> real option \<Rightarrow> real" where
  "similarity_cmp a b = js_or (snd b) 0 - js_or (snd a) 0"

definition getMemoriesFromBucket ::
  "int \<Rightarrow> store \<Rightarrow> string \<Rightarrow> real list option \<Rightarrow> nat \<Rightarrow> real
     \<Rightarrow> error + ((memory_chunk \<times> real option) list \<times> store)" where
  "getMemoriesFromBucket now s bucketName queryEmbedding limit minScore =
     (case findUnique_bucket s bucketName of
        None \<Rightarrow> Inl (BucketNotFound bucketName)
      | Some bucket \<Rightarrow>
          (let found = findMany_chunks s (bucket_id bucket) minScore limit;
               chunks =
                 (case queryEmbedding of
                    None \<Rightarrow> map (\<lambda>c. (c, None)) found
                  | Some q \<Rightarrow>
                      if 0 < length q
                      then js_sort similarity_cmp
                             (map (\<lambda>c. (c, calculateCosineSimilarity_exact q (embedding c))) found)
                      else map (\<lambda>c. (c, None)) found)
           in case touch_all now (map (chunk_id \<circ> fst) chunks) s of
                Inl e \<Rightarrow> Inl e
              | Inr s' \<Rightarrow> Inr (chunks, s')))"

text \<open>
  \<open>applyMemoryDecay\<close>: the loop runs over the rows read at the start; \<open>clk k\<close> is what
  \<open>Date.now()\<close> returns in iteration \<open>k\<close>.
\<close>

definition newScore :: "int \<Rightarrow> memory_chunk \<Rightarrow> real" where
  "newScore now chunk =
     (let timeSinceLastAccess = now - lastAccessed chunk;
          hoursSinceAccess = real_of_int timeSinceLastAccess / (1000 * 60 * 60)
      in score chunk * Math_pow (decayRate chunk) hoursSinceAccess)"

fun decay_loop ::
  "(nat \<Rightarrow> int) \<Rightarrow> nat \<Rightarrow> memory_chunk list \<Rightarrow> store \<times> decay_counts \<Rightarrow> error + (store \<times> decay_counts)" where
  "decay_loop clk k [] acc = Inr acc"
| "decay_loop clk k (chunk # rest) (s, n) =
     (if newScore (clk k) chunk < 0.05 then
        (case delete_chunk (chunk_id chunk) s of
           Inl e \<Rightarrow> Inl e
         | Inr s' \<Rightarrow>
             decay_loop clk (Suc k) rest
               (s', n\<lparr>deleted := deleted n + 1, processed := processed n + 1\<rparr>))
      else if newScore (clk k) chunk \<noteq> score chunk then
        (case update_chunk (chunk_id chunk) (\<lambda>c. c\<lparr>score := newScore (clk k) chunk\<rparr>) s of
           Inl e \<Rightarrow> Inl e
         | Inr s' \<Rightarrow>
             decay_loop clk (Suc k) rest
               (s', n\<lparr>decayed := decayed n + 1, processed := processed n + 1\<rparr>))
      else decay_loop clk (Suc k) rest (s, n\<lparr>processed := processed n + 1\<rparr>))"

definition applyMemoryDecay :: "(nat \<Rightarrow> int) \<Rightarrow> store \<Rightarrow> error + (store \<times> decay_counts)" where
  "applyMemoryDecay clk s =
     decay_loop clk 0 (memoryChunk s) (s, \<lparr>processed = 0, decayed = 0, deleted = 0\<rparr>)"

definition boostMemory :: "int \<Rightarrow> store \<Rightarrow> string \<Rightarrow> real \<Rightarrow> error + store" where
  "boostMemory now s chunkId boost =
     update_chunk chunkId
       (\<lambda>c. c\<lparr>score := score c + boost, lastAccessed := now, accessCount := accessCount c + 1\<rparr>) s"

text \<open>
  \<open>searchMemories\<close>: one \<open>getMemoriesFromBucket\<close> call per bucket, with the default
  \<open>minScore\<close> of \<open>0.1\<close>; \<open>clk k\<close> is the time of the call for bucket \<open>k\<close>.
\<close>

definition MEMORY_BUCKET_NAMES :: "string list" where
  "MEMORY_BUCKET_NAMES =
     [''semantic_stm'', ''semantic_ltm'', ''procedural_stm'', ''procedural_ltm'',
      ''episodic_stm'', ''episodic_ltm'', ''diary_rl'', ''calendar_rl'', ''api_docs'',
      ''odds_ends'']"

fun search_loop ::
  "(nat \<Rightarrow> int) \<Rightarrow> nat \<Rightarrow> string list \<Rightarrow> real list \<Rightarrow> nat \<Rightarrow> store
     \<Rightarrow> (memory_chunk \<times> real option) list
     \<Rightarrow> error + ((memory_chunk \<times> real option) list \<times> store)" where
  "search_loop clk k [] q perBucket s allResults = Inr (allResults, s)"
| "search_loop clk k (bucketName # rest) q perBucket s allResults =
     (case getMemoriesFromBucket (clk k) s bucketName (Some q) perBucket 0.1 of
        Inl e \<Rightarrow> Inl e
      | Inr (results, s') \<Rightarrow> search_loop clk (Suc k) rest q perBucket s' (allResults @ results))"

definition search_key :: "memory_chunk \<times> real option \<Rightarrow> real" where
  "search_key a = js_or (snd a) (score (fst a))"

definition search_cmp :: "memory_chunk \<times> real option \<Rightarrow> memory_chunk \<times> real option \<Rightarrow> real" where
  "search_cmp a b = search_key b - search_key a"

definition searchMemories ::
  "(nat \<Rightarrow> int) \<Rightarrow> store \<Rightarrow> real list \<Rightarrow> string list option \<Rightarrow> nat
     \<Rightarrow> error + ((memory_chunk \<times> real option) list \<times> store)" where
  "searchMemories clk s queryEmbedding buckets limit =
     (let bucketsToSearch = (case buckets of None \<Rightarrow> MEMORY_BUCKET_NAMES | Some bs \<Rightarrow> bs)
      in case search_loop clk 0 bucketsToSearch queryEmbedding
                (nat \<lceil>real limit / real (length bucketsToSearch)\<rceil>) s [] of
           Inl e \<Rightarrow> Inl e
         | Inr (allResults, s') \<Rightarrow> Inr (take limit (js_sort search_cmp allResults), s'))"

section \<open>Reflection service\<close>

datatype trigger_type = scheduled | threshold | user_request

datatype reflection_depth = shallow | medium | deep

record reflection_request =
  triggerType :: trigger_type
  memoryScope :: "string list"
  reflectionDepth :: reflection_depth
  focusAreas :: "string list"

record reflection_result =
  insights :: "string list"
  newConnections :: "memory_link list"
  recommendations :: "string list"
  confidenceScore :: "real option"

text \<open>
  \<open>gatherMemoriesForReflection\<close>: up to 50 chunks per bucket, no query embedding, then the
  sort with its comparator and the slice. \<open>now\<close> is what \<open>Date.now()\<close> returns while the
  list is sorted.
\<close>

fun gather_loop ::
  "(nat \<Rightarrow> int) \<Rightarrow> nat \<Rightarrow> string list \<Rightarrow> store \<Rightarrow> memory_chunk list
     \<Rightarrow> error + (memory_chunk list \<times> store)" where
  "gather_loop clk k [] s allMemories = Inr (allMemories, s)"
| "gather_loop clk k (bucket # rest) s allMemories =
     (case getMemoriesFromBucket (clk k) s bucket None 50 0.1 of
        Inl e \<Rightarrow> Inl e
      | Inr (memories, s') \<Rightarrow> gather_loop clk (Suc k) rest s' (allMemories @ map fst memories))"

definition gather_cmp :: "int \<Rightarrow> memory_chunk \<Rightarrow> memory_chunk \<Rightarrow> real" where
  "gather_cmp now a b =
     (score b * 0.7 + real_of_int (now - lastAccessed a) * 0.3) -
     (score a * 0.7 + real_of_int (now - lastAccessed b) * 0.3)"

definition gatherMemoriesForReflection ::
  "(nat \<Rightarrow> int) \<Rightarrow> int \<Rightarrow> store \<Rightarrow> string list \<Rightarrow> error + (memory_chunk list \<times> store)" where
  "gatherMemoriesForReflection clk now s buckets =
     (case gather_loop clk 0 buckets s [] of
        Inl e \<Rightarrow> Inl e
      | Inr (allMemories, s') \<Rightarrow> Inr (take 100 (js_sort (gather_cmp now) allMemories), s'))"

text \<open>
  \<open>calculateTextSimilarity\<close>. Characters are the code units below 256; \<open>toLowerCase\<close>
  moves the capital letters of that range, and the white-space class has its seven
  characters. The split cuts at every run of white space, so a text that starts or ends
  with white space has an empty first or last token, and the empty text has one token,
  the empty one.
\<close>

definition lower_char :: "char \<Rightarrow> char" where
  "lower_char c =
     (let n = (of_char c :: nat)
      in if (65 \<le> n \<and> n \<le> 90) \<or> (192 \<le> n \<and> n \<le> 222 \<and> n \<noteq> 215) then char_of (n + 32) else c)"

definition toLowerCase :: "string \<Rightarrow> string" where
  "toLowerCase t = map lower_char t"

definition is_whitespace :: "char \<Rightarrow> bool" where
  "is_whitespace c = ((of_char c :: nat) \<in> {9, 10, 11, 12, 13, 32, 160})"

fun split_loop :: "bool \<Rightarrow> string \<Rightarrow> string \<Rightarrow> string list" where
  "split_loop in_gap cur [] = [rev cur]"
| "split_loop in_gap cur (c # cs) =
     (if is_whitespace c then
        (if in_gap then split_loop True cur cs else rev cur # split_loop True [] cs)
      else split_loop False (c # cur) cs)"

definition split_whitespace :: "string \<Rightarrow> string list" where
  "split_whitespace t = split_loop False [] t"

text \<open>A \<open>Set\<close> built from a list keeps the first occurrence of every element.\<close>

definition new_Set :: "'a list \<Rightarrow> 'a list" where
  "new_Set xs = rev (remdups (rev xs))"

definition calculateTextSimilarity :: "string \<Rightarrow> string \<Rightarrow> real option" where
  "calculateTextSimilarity text1 text2 =
     (let words1 = new_Set (split_whitespace (toLowerCase text1));
          words2 = new_Set (split_whitespace (toLowerCase text2));
          intersection = new_Set (filter (\<lambda>x. x \<in> set words2) words1);
          union = new_Set (words1 @ words2)
      in js_div (real (length intersection)) (real (length union)))"

text \<open>Decimal digits of a number, for the identifier of a discovered link.\<close>

fun show_nat :: "nat \<Rightarrow> string" where
  "show_nat n = (if n < 10 then [char_of (48 + n)] else show_nat (n div 10) @ [char_of (48 + n mod 10)])"

definition show_int :: "int \<Rightarrow> string" where
  "show_int i = (if i < 0 then CHR ''-'' # show_nat (nat (- i)) else show_nat (nat i))"

text \<open>
  \<open>discoverMemoryConnections\<close>. \<open>lookup\<close> is the query \<open>prisma.memoryLink.findFirst\<close>
  for a link between two chunks in either direction; like every database call it may
  fail, and the failure ends the iteration.
\<close>

definition candidate_link :: "int \<Rightarrow> memory_chunk list \<Rightarrow> nat \<Rightarrow> nat \<Rightarrow> real \<Rightarrow> memory_link" where
  "candidate_link now memories i j similarity =
     \<lparr>link_id = ''temp_'' @ show_int now @ ''_'' @ show_nat i @ ''_'' @ show_nat j,
      sourceId = chunk_id (memories ! i), targetId = chunk_id (memories ! j),
      strength = similarity, linkType = semantic, createdAt = now\<rparr>"

fun discover_inner ::
  "(string \<Rightarrow> string \<Rightarrow> error + memory_link option) \<Rightarrow> int \<Rightarrow> memory_chunk list \<Rightarrow> nat \<Rightarrow> nat list
     \<Rightarrow> memory_link list \<Rightarrow> error + memory_link list" where
  "discover_inner lookup now memories i [] newConns = Inr newConns"
| "discover_inner lookup now memories i (j # js) newConns =
     (case calculateTextSimilarity (chunk_text (memories ! i)) (chunk_text (memories ! j)) of
        None \<Rightarrow> discover_inner lookup now memories i js newConns
      | Some similarity \<Rightarrow>
          if similarity > 0.7 then
            (case lookup (chunk_id (memories ! i)) (chunk_id (memories ! j)) of
               Inl e \<Rightarrow> Inl e
             | Inr existingLink \<Rightarrow>
                 if existingLink = None
                 then discover_inner lookup now memories i js
                        (newConns @ [candidate_link now memories i j similarity])
                 else discover_inner lookup now memories i js newConns)
          else discover_inner lookup now memories i js newConns)"

fun discover_outer ::
  "(string \<Rightarrow> string \<Rightarrow> error + memory_link option) \<Rightarrow> int \<Rightarrow> memory_chunk list \<Rightarrow> nat list
     \<Rightarrow> memory_link list \<Rightarrow> error + memory_link list" where
  "discover_outer lookup now memories [] newConns = Inr newConns"
| "discover_outer lookup now memories (i # is) newConns =
     (case discover_inner lookup now memories i
             [i + 1 ..< min (length memories) (i + 10)] newConns of
        Inl e \<Rightarrow> Inl e
      | Inr newConns' \<Rightarrow> discover_outer lookup now memories is newConns')"

definition discoverMemoryConnections ::
  "(string \<Rightarrow> string \<Rightarrow> error + memory_link option) \<Rightarrow> int \<Rightarrow> memory_chunk list
     \<Rightarrow> error + memory_link list" where
  "discoverMemoryConnections lookup now memories =
     (case discover_outer lookup now memories [0 ..< length memories - 1] [] of
        Inl e \<Rightarrow> Inl e
      | Inr newConns \<Rightarrow> Inr (take 10 newConns))"

text \<open>
  \<open>calculateConfidenceScore\<close>. The average divides by \<open>memories.length\<close>; with no
  memories it is \<open>0 / 0\<close>, and \<open>NaN\<close> passes through \<open>Math.min\<close> and the sum.
\<close>

definition calculateConfidenceScore :: "memory_chunk list \<Rightarrow> string list \<Rightarrow> real option" where
  "calculateConfidenceScore memories insightList =
     (let score1 = 0 + min (real (length memories) / 50) 1 * 0.3;
          score2 = score1 + min (real (length insightList) / 10) 1 * 0.3
      in case js_div (foldl (\<lambda>sum m. sum + score m) 0 memories) (real (length memories)) of
           None \<Rightarrow> None
         | Some avgMemoryScore \<Rightarrow> Some (min (score2 + min (avgMemoryScore / 2) 1 * 0.4) 1))"

text \<open>
  \<open>generateReflection\<close>: the five phases inside \<open>try\<close>, and the \<open>catch\<close> that answers
  with a fixed result. The analysis, recommendation and saving phases build and store
  report strings; they enter as functions that may fail, as does the link lookup of the
  discovery phase. The value is the result handed to the caller.
\<close>

definition degraded_result :: reflection_result where
  "degraded_result =
     \<lparr>insights = [''Error generating reflection insights''],
      newConnections = [],
      recommendations = [''Unable to generate recommendations at this time''],
      confidenceScore = Some 0\<rparr>"

definition generateReflection ::
  "(memory_chunk list \<Rightarrow> reflection_depth \<Rightarrow> string list \<Rightarrow> error + string list)
     \<Rightarrow> (string list \<Rightarrow> memory_chunk list \<Rightarrow> error + string list)
     \<Rightarrow> (memory_chunk list \<Rightarrow> string list \<Rightarrow> string \<Rightarrow> error + unit)
     \<Rightarrow> (string \<Rightarrow> string \<Rightarrow> error + memory_link option)
     \<Rightarrow> (nat \<Rightarrow> int) \<Rightarrow> int \<Rightarrow> store \<Rightarrow> reflection_request \<Rightarrow> string \<Rightarrow> reflection_result" where
  "generateReflection analyzeMemories generateRecommendations saveReflections lookup
       clk now s request conductorId =
     (case gatherMemoriesForReflection clk now s (memoryScope request) of
        Inl e \<Rightarrow> degraded_result
      | Inr (memories, s') \<Rightarrow>
     (case analyzeMemories memories (reflectionDepth request) (focusAreas request) of
        Inl e \<Rightarrow> degraded_result
      | Inr insightList \<Rightarrow>
     (case discoverMemoryConnections lookup now memories of
        Inl e \<Rightarrow> degraded_result
      | Inr newConns \<Rightarrow>
     (case generateRecommendations insightList memories of
        Inl e \<Rightarrow> degraded_result
      | Inr recs \<Rightarrow>
     (case saveReflections memories insightList conductorId of
        Inl e \<Rightarrow> degraded_result
      | Inr _ \<Rightarrow>
          \<lparr>insights = insightList, newConnections = newConns, recommendations = recs,
           confidenceScore = calculateConfidenceScore memories insightList\<rparr>)))))"

section \<open>Sequences of operations\<close>

text \<open>
  The three operations that write scores, each with the time (or clock) of its call. A
  failed \<open>addMemoryChunk\<close> or \<open>boostMemory\<close> has written nothing, so the store stays as
  it was. A decay run fails only when a row it read has gone before its turn, which does
  not happen on a table with distinct identifiers (lemma \<open>applyMemoryDecay_rows\<close>).
\<close>

datatype operation =
    AddChunk string int string string "real list" "real list" string "string option"
  | Boost int string real
  | ApplyDecay "nat \<Rightarrow> int"

fun run_operation :: "operation \<Rightarrow> store \<Rightarrow> store" where
  "run_operation (AddChunk new_id now bucketName txt emb mv src agent) s =
     (case addMemoryChunk new_id now s bucketName txt emb mv src agent of
        Inl e \<Rightarrow> s
      | Inr (chunk, s') \<Rightarrow> s')"
| "run_operation (Boost now chunkId boost) s =
     (case boostMemory now s chunkId boost of Inl e \<Rightarrow> s | Inr s' \<Rightarrow> s')"
| "run_operation (ApplyDecay clk) s =
     (case applyMemoryDecay clk s of Inl e \<Rightarrow> s | Inr (s', n) \<Rightarrow> s')"

definition run_operations :: "operation list \<Rightarrow> store \<Rightarrow> store" where
  "run_operations ops s = fold run_operation ops s"

section \<open>Definitions for the statements\<close>

text \<open>The dot product and the Euclidean norm, to state what the similarity computes.\<close>

definition dot :: "real list \<Rightarrow> real list \<Rightarrow> real" where
  "dot xs ys = (\<Sum>(x, y) \<leftarrow> zip xs ys. x * y)"

definition vec_norm :: "real list \<Rightarrow> real" where
  "vec_norm xs = sqrt (\<Sum>x \<leftarrow> xs. x * x)"

text \<open>
  The three accumulators of the similarity in double precision, as folds, and the range of
  the square root of a non-zero double: a finite one is at least \<open>2 powr - 537\<close>.
\<close>

definition dot_product :: "double list \<Rightarrow> double list \<Rightarrow> double" where
  "dot_product a b = foldl (\<lambda>s (x, y). dadd s (dmul x y)) (Finite 0) (zip a b)"

definition sum_squares :: "double list \<Rightarrow> double" where
  "sum_squares a = foldl (\<lambda>s x. dadd s (dmul x x)) (Finite 0) a"

definition sqrt_range :: "double \<Rightarrow> bool" where
  "sqrt_range d = (case d of Finite s \<Rightarrow> 2 powr (- 537) \<le> s | _ \<Rightarrow> True)"

text \<open>What an access does to a row, and the order that \<open>orderBy\<close> asks for.\<close>

definition touch :: "int \<Rightarrow> memory_chunk \<Rightarrow> memory_chunk" where
  "touch now c = c\<lparr>lastAccessed := now, accessCount := accessCount c + 1\<rparr>"

definition score_then_recency :: "memory_chunk \<Rightarrow> memory_chunk \<Rightarrow> bool" where
  "score_then_recency a b =
     (score b < score a \<or> (score b = score a \<and> lastAccessed b \<le> lastAccessed a))"

text \<open>
  The rows a retrieval from a bucket may return, and what it is to be the first \<open>n\<close> of a
  list put in a given order: \<open>page\<close> followed by the remaining elements is an ordered
  arrangement of \<open>xs\<close>, and \<open>page\<close> is as long as \<open>n\<close> and \<open>xs\<close> allow.
\<close>

definition eligible :: "store \<Rightarrow> string \<Rightarrow> real \<Rightarrow> memory_chunk list" where
  "eligible s bid minScore = filter (\<lambda>c. bucketId c = bid \<and> minScore \<le> score c) (memoryChunk s)"

definition first_of :: "('a \<Rightarrow> 'a \<Rightarrow> bool) \<Rightarrow> nat \<Rightarrow> 'a list \<Rightarrow> 'a list \<Rightarrow> bool" where
  "first_of before n xs page =
     (\<exists>rest. mset (page @ rest) = mset xs \<and> sorted_wrt before (page @ rest) \<and>
             length page = min n (length xs))"

text \<open>
  What the decay loop does to the row read in iteration \<open>k\<close>: the row goes when its new
  score is under the floor, and otherwise stays with the new score.
\<close>

definition decay_row :: "(nat \<Rightarrow> int) \<Rightarrow> nat \<times> memory_chunk \<Rightarrow> memory_chunk option" where
  "decay_row clk kc =
     (if newScore (clk (fst kc)) (snd kc) < 0.05 then None
      else Some ((snd kc)\<lparr>score := newScore (clk (fst kc)) (snd kc)\<rparr>))"

definition is_deleted :: "(nat \<Rightarrow> int) \<Rightarrow> nat \<times> memory_chunk \<Rightarrow> bool" where
  "is_deleted clk kc = (newScore (clk (fst kc)) (snd kc) < 0.05)"

definition is_decayed :: "(nat \<Rightarrow> int) \<Rightarrow> nat \<times> memory_chunk \<Rightarrow> bool" where
  "is_decayed clk kc =
     (\<not> newScore (clk (fst kc)) (snd kc) < 0.05 \<and> newScore (clk (fst kc)) (snd kc) \<noteq> score (snd kc))"

text \<open>A clock that stands still, for two decay runs with no time between them.\<close>

definition fixed_clock :: "int \<Rightarrow> nat \<Rightarrow> int" where
  "fixed_clock t k = t"

text \<open>
  The invariant of the data model on the chunk table, and the operations whose boost
  amount is not negative.
\<close>

definition score_invariant :: "store \<Rightarrow> bool" where
  "score_invariant s =
     (\<forall>c \<in> set (memoryChunk s). 0 \<le> score c \<and> 0 < decayRate c \<and> decayRate c < 1)"

fun nonneg_boost :: "operation \<Rightarrow> bool" where
  "nonneg_boost (Boost now chunkId boost) = (0 \<le> boost)"
| "nonneg_boost _ = True"



text \<open>
  The pairs of positions that the nested iteration of the discovery phase visits, in order;
  the Jaccard similarity of the token sets of two texts; and the candidates that the
  iteration collects before the final slice.
\<close>

definition window_pairs :: "nat \<Rightarrow> (nat \<times> nat) list" where
  "window_pairs n = concat (map (\<lambda>i. map (Pair i) [i + 1 ..< min n (i + 10)]) [0 ..< n - 1])"

definition tokens :: "string \<Rightarrow> string set" where
  "tokens t = set (split_whitespace (toLowerCase t))"

definition jaccard :: "string \<Rightarrow> string \<Rightarrow> real" where
  "jaccard t1 t2 = real (card (tokens t1 \<inter> tokens t2)) / real (card (tokens t1 \<union> tokens t2))"

definition linked :: "store \<Rightarrow> string \<Rightarrow> string \<Rightarrow> bool" where
  "linked s a b =
     (\<exists>l \<in> set (memoryLink s).
        (sourceId l = a \<and> targetId l = b) \<or> (sourceId l = b \<and> targetId l = a))"

definition qualifies :: "store \<Rightarrow> memory_chunk list \<Rightarrow> nat \<times> nat \<Rightarrow> bool" where
  "qualifies s memories p =
     (0.7 < jaccard (chunk_text (memories ! fst p)) (chunk_text (memories ! snd p)) \<and>
      \<not> linked s (chunk_id (memories ! fst p)) (chunk_id (memories ! snd p)))"

definition candidate_of :: "int \<Rightarrow> memory_chunk list \<Rightarrow> nat \<times> nat \<Rightarrow> memory_link" where
  "candidate_of now memories p =
     candidate_link now memories (fst p) (snd p)
       (jaccard (chunk_text (memories ! fst p)) (chunk_text (memories ! snd p)))"

definition candidates :: "store \<Rightarrow> int \<Rightarrow> memory_chunk list \<Rightarrow> memory_link list" where
  "candidates s now memories =
     map (candidate_of now memories) (filter (qualifies s memories) (window_pairs (length memories)))"

definition endpoints :: "memory_link \<Rightarrow> string \<times> string" where
  "endpoints l = (sourceId l, targetId l)"

section \<open>Example stores\<close>

text \<open>One short-term bucket with two chunks, used where a theorem is run on a concrete store.\<close>

definition ex_bucket :: memory_bucket where
  "ex_bucket = \<lparr>bucket_id = ''b1'', bucket_name = ''semantic_stm'', bucketType = STM\<rparr>"

definition ex_chunk :: "string \<Rightarrow> string \<Rightarrow> real list \<Rightarrow> real \<Rightarrow> int \<Rightarrow> memory_chunk" where
  "ex_chunk i txt emb sc accessed =
     \<lparr>chunk_id = i, bucketId = ''b1'', chunk_text = txt, embedding = emb, metaVector = [],
      score = sc, timestamp = 0, lastAccessed = accessed, source = ''chat'', agentId = None,
      accessCount = 0, decayRate = 0.990\<rparr>"

definition ex_store :: store where
  "ex_store =
     \<lparr>memoryBucket = [ex_bucket],
      memoryChunk = [ex_chunk ''c1'' ''alpha'' [0, 1] 2 1000, ex_chunk ''c2'' ''beta'' [1, 0] 1 2000],
      memoryLink = []\<rparr>"

text \<open>
  Three chunks at the time \<open>360000000\<close> (100 hours after the epoch): one last accessed 100
  hours ago, one accessed just now with a score under the floor, one accessed just now
  with score 1.
\<close>

definition ex_decay_store :: store where
  "ex_decay_store =
     \<lparr>memoryBucket = [ex_bucket],
      memoryChunk = [ex_chunk ''d1'' ''alpha'' [] 1 0,
                     ex_chunk ''d2'' ''beta'' [] 0.04 360000000,
                     ex_chunk ''d3'' ''gamma'' [] 1 360000000],
      memoryLink = []\<rparr>"

text \<open>The factor that 100 hours at the rate \<open>0.990\<close> put on a score, about \<open>0.366\<close>.\<close>

definition decay_100h :: real where
  "decay_100h = (99 / 100) ^ 100"

text \<open>A store with the example bucket and no chunk yet.\<close>

definition ex_empty_store :: store where
  "ex_empty_store = \<lparr>memoryBucket = [ex_bucket], memoryChunk = [], memoryLink = []\<rparr>"

text \<open>Six chunks with the same text and no link between any two of them.\<close>

definition ex_six_store :: store where
  "ex_six_store =
     \<lparr>memoryBucket = [ex_bucket],
      memoryChunk = [ex_chunk ''m0'' ''a'' [] 1 0, ex_chunk ''m1'' ''a'' [] 1 0,
                     ex_chunk ''m2'' ''a'' [] 1 0, ex_chunk ''m3'' ''a'' [] 1 0,
                     ex_chunk ''m4'' ''a'' [] 1 0, ex_chunk ''m5'' ''a'' [] 1 0],
      memoryLink = []\<rparr>"

section \<open>Properties of the cosine similarity\<close>

lemma cosine_loop_exact_sums:
  "length xs = length ys \<Longrightarrow>
   cosine_loop_exact xs ys (d, n1, n2) = (d + dot xs ys, n1 + dot xs xs, n2 + dot ys ys)"
proof (induction xs ys arbitrary: d n1 n2 rule: list_induct2)
  case Nil
  then show ?case by (simp add: dot_def)
next
  case (Cons x xs y ys)
  then show ?case by (simp add: dot_def algebra_simps)
qed

lemma dot_commute: "dot xs ys = dot ys xs"
proof (induction xs arbitrary: ys)
  case Nil
  then show ?case by (simp add: dot_def)
next
  case (Cons x xs)
  then show ?case by (cases ys) (simp_all add: dot_def mult.commute)
qed

lemma dot_self_nonneg: "0 \<le> dot xs xs"
  by (induction xs) (simp_all add: dot_def)

lemma dot_self_squares: "dot xs xs = (\<Sum>x \<leftarrow> xs. x * x)"
  by (induction xs) (simp_all add: dot_def)

lemma dot_self_norm: "dot xs xs = (vec_norm xs)\<^sup>2"
  using dot_self_nonneg [of xs] by (simp add: vec_norm_def dot_self_squares)

lemma dot_quadratic:
  "length xs = length ys \<Longrightarrow>
   (\<Sum>(x, y) \<leftarrow> zip xs ys. (x * t + y)\<^sup>2) = dot xs xs * t\<^sup>2 + 2 * dot xs ys * t + dot ys ys"
proof (induction xs ys rule: list_induct2)
  case Nil
  then show ?case by (simp add: dot_def)
next
  case (Cons x xs y ys)
  then show ?case by (simp add: dot_def power2_eq_square algebra_simps)
qed

lemma quadratic_nonneg: "(0::real) \<le> (\<Sum>(x, y) \<leftarrow> zip xs ys. (x * t + y)\<^sup>2)"
proof (induction xs arbitrary: ys)
  case Nil
  then show ?case by simp
next
  case (Cons x xs)
  then show ?case by (cases ys) simp_all
qed

lemma dot_zero_norm:
  "length xs = length ys \<Longrightarrow> dot xs xs = 0 \<Longrightarrow> dot xs ys = 0"
proof (induction xs ys rule: list_induct2)
  case Nil
  then show ?case by (simp add: dot_def)
next
  case (Cons x xs y ys)
  have a: "0 \<le> dot xs xs" by (rule dot_self_nonneg)
  have b: "x * x + dot xs xs = 0" using Cons.prems by (simp add: dot_def)
  have "0 \<le> x * x" by simp
  with a b have "x * x = 0" "dot xs xs = 0" by linarith+
  then show ?case using Cons.IH by (simp add: dot_def)
qed

text \<open>The Cauchy-Schwarz inequality for lists, from the quadratic in \<open>t\<close> at \<open>t = - d / A\<close>.\<close>

lemma dot_cauchy_schwarz:
  assumes len: "length xs = length ys"
  shows "(dot xs ys)\<^sup>2 \<le> dot xs xs * dot ys ys"
proof (cases "dot xs xs = 0")
  case True
  then show ?thesis using dot_zero_norm [OF len] by simp
next
  case False
  define A where "A = dot xs xs"
  define B where "B = dot ys ys"
  define d where "d = dot xs ys"
  have Apos: "0 < A" using False dot_self_nonneg [of xs] by (simp add: A_def)
  have "0 \<le> A * (- d / A)\<^sup>2 + 2 * d * (- d / A) + B"
    using quadratic_nonneg [of "- d / A" xs ys] dot_quadratic [OF len, of "- d / A"]
    by (simp add: A_def B_def d_def)
  also have "A * (- d / A)\<^sup>2 + 2 * d * (- d / A) + B = B - d\<^sup>2 / A"
    using Apos by (simp add: power2_eq_square field_simps)
  finally have "d\<^sup>2 / A \<le> B" by simp
  then have "d\<^sup>2 \<le> B * A" using Apos by (simp add: pos_divide_le_eq)
  then show ?thesis by (simp add: A_def B_def d_def mult.commute)
qed

lemma cosine_exact_unfold:
  "calculateCosineSimilarity_exact a b =
     (if length a \<noteq> length b \<or> dot a a = 0 \<or> dot b b = 0 then Some 0
      else Some (dot a b / (sqrt (dot a a) * sqrt (dot b b))))"
  by (simp add: calculateCosineSimilarity_exact_def cosine_loop_exact_sums js_div_def)

lemma cosine_exact_symmetric: "calculateCosineSimilarity_exact a b = calculateCosineSimilarity_exact b a"
  by (auto simp: cosine_exact_unfold dot_commute mult.commute)

lemma cosine_exact_defined: "\<exists>r. calculateCosineSimilarity_exact a b = Some r"
  by (simp add: cosine_exact_unfold)

lemma cosine_exact_bounded:
  assumes "calculateCosineSimilarity_exact a b = Some r"
  shows "- 1 \<le> r \<and> r \<le> 1"
proof (cases "length a = length b \<and> dot a a \<noteq> 0 \<and> dot b b \<noteq> 0")
  case False
  then have "r = 0" using assms by (auto simp: cosine_exact_unfold split: if_splits)
  then show ?thesis by simp
next
  case True
  then have len: "length a = length b" and A: "0 < dot a a" and B: "0 < dot b b"
    using dot_self_nonneg [of a] dot_self_nonneg [of b] by auto
  have r: "r = dot a b / (sqrt (dot a a) * sqrt (dot b b))"
    using assms True by (simp add: cosine_exact_unfold)
  have "\<bar>dot a b\<bar> \<le> sqrt (dot a a * dot b b)"
    using dot_cauchy_schwarz [OF len] by (metis real_sqrt_abs real_sqrt_le_iff)
  then have "\<bar>dot a b\<bar> \<le> sqrt (dot a a) * sqrt (dot b b)" by (simp add: real_sqrt_mult)
  moreover have "0 < sqrt (dot a a) * sqrt (dot b b)" using A B by simp
  ultimately have "\<bar>dot a b / (sqrt (dot a a) * sqrt (dot b b))\<bar> \<le> 1"
    by (simp only: abs_divide abs_of_pos divide_le_eq_1_pos)
  then have "\<bar>r\<bar> \<le> 1" unfolding r .
  then show ?thesis by linarith
qed

lemma cosine_exact_zero_cases:
  assumes "a = [] \<or> b = [] \<or> length a \<noteq> length b \<or> vec_norm a = 0 \<or> vec_norm b = 0"
  shows "calculateCosineSimilarity_exact a b = Some 0"
proof -
  have "length a \<noteq> length b \<or> dot a a = 0 \<or> dot b b = 0"
    using assms by (auto simp: dot_self_norm) (simp_all add: vec_norm_def)
  then show ?thesis by (auto simp: cosine_exact_unfold)
qed

text \<open>
  The bound of the exact value is the Cauchy-Schwarz inequality. The rest of this section is
  about the value in double precision.
\<close>

subsection \<open>Rounding\<close>

lemma dmul_commute: "dmul a b = dmul b a"
  by (cases a; cases b) (simp_all add: mult.commute)

lemma round_even_near:
  assumes "\<bar>t - of_int m\<bar> < 1 / 2"
  shows "round_even t = m"
proof -
  consider "of_int m \<le> t" | "t < of_int m" by linarith
  then show ?thesis
  proof cases
    case 1
    then have "\<lfloor>t\<rfloor> = m" using assms by (intro floor_unique) (auto simp: abs_if split: if_splits)
    then show ?thesis using assms 1 by (simp add: round_even_def Let_def)
  next
    case 2
    then have f: "\<lfloor>t\<rfloor> = m - 1" using assms by (intro floor_unique) (auto simp: abs_if split: if_splits)
    have "1 / 2 < t - of_int (m - 1)" using assms 2 by (auto simp: abs_if split: if_splits)
    then show ?thesis unfolding round_even_def Let_def f by simp
  qed
qed

lemma round_even_ge: "of_int n \<le> t \<Longrightarrow> n \<le> round_even t"
proof -
  assume "of_int n \<le> t"
  then have "n \<le> \<lfloor>t\<rfloor>" by (simp add: le_floor_iff)
  then show ?thesis by (auto simp: round_even_def Let_def)
qed

lemma round_even_tie:
  assumes "t = of_int f + 1 / 2"
  shows "round_even t = (if even f then f else f + 1)"
proof -
  have "\<lfloor>t\<rfloor> = f" using assms by (intro floor_unique) simp_all
  then show ?thesis using assms by (simp add: round_even_def Let_def)
qed

lemma round_even_dist: "\<bar>of_int (round_even t) - t\<bar> \<le> 1 / 2"
proof -
  define f where "f = \<lfloor>t\<rfloor>"
  have f: "of_int f \<le> t" "t < of_int f + 1" unfolding f_def by linarith+
  have "round_even t = f \<and> t - of_int f \<le> 1 / 2 \<or> round_even t = f + 1 \<and> 1 / 2 \<le> t - of_int f"
    unfolding round_even_def Let_def f_def [symmetric] by auto
  then show ?thesis using f by (auto simp: abs_if)
qed

lemma fl_round:
  fixes x :: real and e :: int
  assumes lo: "2 powr of_int e \<le> x" and hi: "x < 2 powr (of_int e + 1)"
      and e: "- 1022 \<le> e" "e \<le> 1022"
  shows "fl x = Finite (of_int (round_even (x / 2 powr (of_int e - 52))) * 2 powr (of_int e - 52))"
proof -
  let ?u = "2 powr (of_int e - 52) :: real"
  let ?m = "round_even (x / ?u)"
  have x: "0 < x" using lo by (smt (verit) powr_gt_zero)
  have "\<lfloor>log 2 x\<rfloor> = e" using x lo hi by (simp add: floor_log_eq_powr_iff)
  then have b: "binade x = e" using x e by (simp add: binade_def)
  have u: "ulp x = ?u" by (simp add: ulp_def b)
  have upos: "0 < ?u" by simp
  have "\<bar>of_int ?m - x / ?u\<bar> \<le> 1 / 2" by (rule round_even_dist)
  then have "\<bar>of_int ?m - x / ?u\<bar> * ?u \<le> 1 / 2 * ?u"
    using upos by (intro mult_right_mono) simp_all
  moreover have "\<bar>of_int ?m - x / ?u\<bar> * ?u = \<bar>of_int ?m * ?u - x\<bar>"
  proof -
    have "\<bar>of_int ?m - x / ?u\<bar> * ?u = \<bar>(of_int ?m - x / ?u) * ?u\<bar>"
      using upos by (simp add: abs_mult)
    also have "(of_int ?m - x / ?u) * ?u = of_int ?m * ?u - x"
      using upos by (simp add: field_simps)
    finally show ?thesis .
  qed
  ultimately have "\<bar>of_int ?m * ?u - x\<bar> \<le> ?u / 2" by simp
  then have "\<bar>of_int ?m * ?u\<bar> \<le> x + ?u / 2" using x by linarith
  moreover have "?u \<le> 2 powr (of_int e + 1)" by (intro powr_mono) simp_all
  moreover have "2 powr (of_int e + 1) \<le> (2 powr 1023 :: real)"
    using e by (intro powr_mono) simp_all
  moreover have "(2 powr 1023 :: real) = 2 ^ 1023" by simp
  moreover have "(2 ^ 1024 :: real) = 2 * 2 ^ 1023" by simp
  moreover have "(0 :: real) < 2 ^ 1023" by simp
  ultimately have "\<not> 2 ^ 1024 \<le> \<bar>of_int ?m * ?u\<bar>" using hi by linarith
  then show ?thesis using x by (simp add: fl_def Let_def u)
qed

lemma fl_nearest:
  fixes x :: real and e m :: int
  assumes lo: "2 powr of_int e \<le> x" and hi: "x < 2 powr (of_int e + 1)"
      and e: "- 1022 \<le> e" "e \<le> 1022"
      and m1: "(of_int m - 1 / 2) * 2 powr (of_int e - 52) < x"
      and m2: "x < (of_int m + 1 / 2) * 2 powr (of_int e - 52)"
  shows "fl x = Finite (of_int m * 2 powr (of_int e - 52))"
proof -
  let ?u = "2 powr (of_int e - 52) :: real"
  have upos: "0 < ?u" by simp
  have "of_int m - 1 / 2 < x / ?u" using m1 upos by (simp add: pos_less_divide_eq)
  moreover have "x / ?u < of_int m + 1 / 2" using m2 upos by (simp add: pos_divide_less_eq)
  ultimately have "\<bar>x / ?u - of_int m\<bar> < 1 / 2" by linarith
  then have "round_even (x / ?u) = m" by (rule round_even_near)
  then show ?thesis using fl_round [OF lo hi e] by simp
qed

lemma fl_tie:
  fixes x :: real and e f :: int
  assumes lo: "2 powr of_int e \<le> x" and hi: "x < 2 powr (of_int e + 1)"
      and e: "- 1022 \<le> e" "e \<le> 1022"
      and t: "x = (of_int f + 1 / 2) * 2 powr (of_int e - 52)"
  shows "fl x = Finite (of_int (if even f then f else f + 1) * 2 powr (of_int e - 52))"
proof -
  let ?u = "2 powr (of_int e - 52) :: real"
  have upos: "0 < ?u" by simp
  have "x / ?u = of_int f + 1 / 2" using t upos by simp
  then have "round_even (x / ?u) = (if even f then f else f + 1)" by (rule round_even_tie)
  then show ?thesis using fl_round [OF lo hi e] by simp
qed

lemma fl_pos_lower:
  fixes x :: real and k :: int
  assumes k: "2 powr of_int k \<le> x" and k0: "- 1074 \<le> k"
  shows "fl x = PosInf \<or> (\<exists>y. fl x = Finite y \<and> 2 powr of_int k \<le> y)"
proof -
  let ?u = "ulp x"
  let ?m = "round_even (x / ?u)"
  have x: "0 < x" using k by (smt (verit) powr_gt_zero)
  have ax: "\<bar>x\<bar> = x" using x by simp
  have upos: "0 < ?u" by (simp add: ulp_def)
  have kl: "k \<le> \<lfloor>log 2 x\<rfloor>"
  proof -
    have "of_int k \<le> log 2 x" using k x by (simp add: le_log_iff)
    then show ?thesis by (simp add: le_floor_iff)
  qed
  have y: "2 powr of_int k \<le> of_int ?m * ?u"
  proof (cases "- 1022 \<le> \<lfloor>log 2 x\<rfloor>")
    case True
    define e where "e = \<lfloor>log 2 x\<rfloor>"
    have b: "binade x = e" unfolding binade_def ax e_def using True by (rule max_absorb1)
    have u: "?u = 2 powr (of_int e - 52)" by (simp add: ulp_def b)
    have "of_int e \<le> log 2 x" unfolding e_def by simp
    then have ex: "2 powr of_int e \<le> x" using x by (simp add: le_log_iff)
    have "2 powr of_int e = 2 powr 52 * ?u" unfolding u powr_add [symmetric] by simp
    then have "2 powr 52 * ?u \<le> x" using ex by simp
    then have "2 powr 52 \<le> x / ?u" using upos by (simp add: pos_le_divide_eq)
    moreover have "(2 powr 52 :: real) = of_int (2 ^ 52)" by simp
    ultimately have "of_int (2 ^ 52) \<le> x / ?u" by simp
    then have "2 ^ 52 \<le> ?m" by (rule round_even_ge)
    then have "(of_int (2 ^ 52) :: real) \<le> of_int ?m" by (simp only: of_int_le_iff)
    then have "of_int (2 ^ 52) * ?u \<le> of_int ?m * ?u"
      using upos by (intro mult_right_mono) simp_all
    moreover have "of_int (2 ^ 52) * ?u = 2 powr of_int e"
      using \<open>2 powr of_int e = 2 powr 52 * ?u\<close> by simp
    moreover have "2 powr of_int k \<le> (2 powr of_int e :: real)"
      using kl by (intro powr_mono) (simp_all add: e_def)
    ultimately show ?thesis by linarith
  next
    case False
    then have "\<lfloor>log 2 x\<rfloor> \<le> - 1022" by linarith
    then have b: "binade x = - 1022" unfolding binade_def ax by (rule max_absorb2)
    have u: "?u = 2 powr (- 1074)" by (simp add: ulp_def b)
    define n where "n = nat (k + 1074)"
    have n: "of_int k = real n + (- 1074)" using k0 by (simp add: n_def)
    have kp: "2 powr of_int k = 2 ^ n * ?u"
      unfolding u n powr_add by (simp add: powr_realpow)
    then have "2 ^ n * ?u \<le> x" using k by simp
    then have "2 ^ n \<le> x / ?u" using upos by (simp add: pos_le_divide_eq)
    then have "of_int (2 ^ n) \<le> x / ?u" by simp
    then have "2 ^ n \<le> ?m" by (rule round_even_ge)
    then have "(of_int (2 ^ n) :: real) \<le> of_int ?m" by (simp only: of_int_le_iff)
    then have "of_int (2 ^ n) * ?u \<le> of_int ?m * ?u"
      using upos by (intro mult_right_mono) simp_all
    then show ?thesis using kp by simp
  qed
  have "0 < 2 powr (of_int k :: real)" by simp
  then show ?thesis using x y by (auto simp: fl_def Let_def)
qed

lemma fl_finite_nonzero:
  assumes "fl x = Finite y" and "y \<noteq> 0"
  shows "2 powr (- 1074) \<le> \<bar>y\<bar>"
proof -
  let ?u = "ulp x"
  let ?m = "round_even (x / ?u)"
  have x: "x \<noteq> 0" using assms by (auto simp: fl_def)
  then have y: "y = of_int ?m * ?u"
    using assms by (auto simp: fl_def Let_def split: if_splits)
  have upos: "0 < ?u" by (simp add: ulp_def)
  have "?m \<noteq> 0" using y assms by auto
  then have "1 \<le> \<bar>?m\<bar>" by linarith
  then have "(1 :: real) \<le> \<bar>of_int ?m\<bar>" by (metis of_int_1_le_iff of_int_abs)
  then have "1 * ?u \<le> \<bar>of_int ?m\<bar> * ?u" using upos by (intro mult_right_mono) simp_all
  moreover have "\<bar>y\<bar> = \<bar>of_int ?m\<bar> * ?u" using upos by (simp add: y abs_mult)
  moreover have "2 powr (- 1074) \<le> ?u"
    unfolding ulp_def by (intro powr_mono) (simp_all add: binade_def)
  ultimately show ?thesis by simp
qed

lemma fl_0: "fl 0 = Finite 0"
  by (simp add: fl_def)

lemma fl_1: "fl 1 = Finite 1"
  using fl_nearest [where e = 0 and x = 1 and m = "2 ^ 52"] by (simp add: powr_neg_numeral)

lemma fl_overflow:
  assumes "2 ^ 1024 \<le> x"
  shows "fl x = PosInf"
proof -
  have "(2 powr of_int 1024 :: real) = 2 ^ 1024" by simp
  then have "2 powr of_int 1024 \<le> x" using assms by simp
  then have "fl x = PosInf \<or> (\<exists>y. fl x = Finite y \<and> 2 powr of_int 1024 \<le> y)"
    by (rule fl_pos_lower) simp
  moreover have "fl x \<noteq> Finite y" if "2 powr of_int 1024 \<le> y" for y
  proof -
    have "2 ^ 1024 \<le> \<bar>y\<bar>" using that by simp
    then show ?thesis by (auto simp: fl_def Let_def)
  qed
  ultimately show ?thesis by blast
qed

subsection \<open>The similarity in double precision\<close>

lemma cosine_loop_fold:
  "length a = length b \<Longrightarrow>
   cosine_loop a b (d, n1, n2) =
     (foldl (\<lambda>s (x, y). dadd s (dmul x y)) d (zip a b),
      foldl (\<lambda>s x. dadd s (dmul x x)) n1 a,
      foldl (\<lambda>s x. dadd s (dmul x x)) n2 b)"
proof (induction a arbitrary: b d n1 n2)
  case Nil
  then show ?case by simp
next
  case (Cons x xs)
  then obtain y ys where b: "b = y # ys" by (cases b) auto
  then show ?case using Cons by simp
qed

lemma cosine_unfold:
  "calculateCosineSimilarity a b =
     (if length a \<noteq> length b then Finite 0
      else if sum_squares a = Finite 0 \<or> sum_squares b = Finite 0 then Finite 0
      else ddiv (dot_product a b) (dmul (Math_sqrt (sum_squares a)) (Math_sqrt (sum_squares b))))"
  by (simp add: calculateCosineSimilarity_def cosine_loop_fold sum_squares_def dot_product_def)

lemma dot_product_self: "dot_product a a = sum_squares a"
proof -
  have "foldl (\<lambda>s (x, y). dadd s (dmul x y)) d (zip a a) = foldl (\<lambda>s x. dadd s (dmul x x)) d a" for d
    by (induction a arbitrary: d) simp_all
  then show ?thesis by (simp add: dot_product_def sum_squares_def)
qed

lemma sum_squares_snoc: "sum_squares (xs @ [x]) = dadd (sum_squares xs) (dmul x x)"
  by (simp add: sum_squares_def)

lemma sum_squares_Nil: "sum_squares [] = Finite 0"
  by (simp add: sum_squares_def)

lemma dadd_finite_nonzero:
  "dadd a b = Finite y \<Longrightarrow> y \<noteq> 0 \<Longrightarrow> 2 powr (- 1074) \<le> \<bar>y\<bar>"
  by (cases a; cases b) (auto dest: fl_finite_nonzero)

lemma sum_squares_finite_nonzero:
  assumes "sum_squares a = Finite y" and "y \<noteq> 0"
  shows "2 powr (- 1074) \<le> \<bar>y\<bar>"
proof (cases a rule: rev_cases)
  case Nil
  then show ?thesis using assms by (simp add: sum_squares_Nil)
next
  case (snoc xs x)
  then show ?thesis using assms dadd_finite_nonzero by (simp add: sum_squares_snoc)
qed

lemma sqrt_lower:
  assumes "2 powr (- 1074) \<le> (y :: real)"
  shows "2 powr (- 537) \<le> sqrt y"
proof -
  have "(2 powr (- 537)) ^ 2 = (2 powr (- 1074) :: real)"
    by (simp add: power2_eq_square powr_add [symmetric])
  then have "(2 powr (- 537)) ^ 2 \<le> y" using assms by simp
  then show ?thesis by (rule real_le_rsqrt)
qed

lemma Math_sqrt_range:
  assumes "d \<noteq> Finite 0" and "\<And>y. d = Finite y \<Longrightarrow> y \<noteq> 0 \<Longrightarrow> 2 powr (- 1074) \<le> \<bar>y\<bar>"
  shows "sqrt_range (Math_sqrt d)"
proof (cases d)
  case (Finite y)
  show ?thesis
  proof (cases "y < 0")
    case True
    then show ?thesis by (simp add: Finite sqrt_range_def)
  next
    case False
    then have "2 powr (- 1074) \<le> y" using assms Finite by fastforce
    then have "2 powr of_int (- 537) \<le> sqrt y" using sqrt_lower by simp
    then have "fl (sqrt y) = PosInf \<or> (\<exists>s. fl (sqrt y) = Finite s \<and> 2 powr of_int (- 537) \<le> s)"
      by (rule fl_pos_lower) simp
    then show ?thesis using False by (auto simp: Finite sqrt_range_def)
  qed
qed (simp_all add: sqrt_range_def)

lemma dmul_sqrt_range:
  assumes "sqrt_range a" and "sqrt_range b"
  shows "dmul a b \<noteq> Finite 0"
proof (cases a)
  case a: (Finite s)
  show ?thesis
  proof (cases b)
    case b: (Finite t)
    have s: "2 powr (- 537) \<le> s" and t: "2 powr (- 537) \<le> t"
      using assms by (simp_all add: a b sqrt_range_def)
    have "0 < (2 powr (- 537) :: real)" by simp
    then have "0 \<le> s" using s by linarith
    then have "2 powr (- 537) * 2 powr (- 537) \<le> s * t"
      using s t by (intro mult_mono) simp_all
    moreover have "2 powr (- 537) * 2 powr (- 537) = (2 powr of_int (- 1074) :: real)"
      by (simp add: powr_add [symmetric])
    ultimately have "2 powr of_int (- 1074) \<le> s * t" by simp
    then have "fl (s * t) = PosInf \<or> (\<exists>y. fl (s * t) = Finite y \<and> 2 powr of_int (- 1074) \<le> y)"
      by (rule fl_pos_lower) simp
    moreover have "0 < (2 powr of_int (- 1074) :: real)" by simp
    ultimately show ?thesis by (auto simp: a b simp del: powr_gt_zero)
  next
    case PosInf
    have "0 < (2 powr (- 537) :: real)" by simp
    then have "0 < s" using assms by (simp add: a sqrt_range_def del: powr_gt_zero)
    then show ?thesis by (simp add: a PosInf)
  next
    case NegInf
    have "0 < (2 powr (- 537) :: real)" by simp
    then have "0 < s" using assms by (simp add: a sqrt_range_def del: powr_gt_zero)
    then show ?thesis by (simp add: a NegInf)
  qed (simp add: a)
next
  case PosInf
  then show ?thesis by (cases b) simp_all
next
  case NegInf
  then show ?thesis by (cases b) simp_all
next
  case NaN
  then show ?thesis by simp
qed

lemma divisor_nonzero:
  assumes "sum_squares a \<noteq> Finite 0" and "sum_squares b \<noteq> Finite 0"
  shows "dmul (Math_sqrt (sum_squares a)) (Math_sqrt (sum_squares b)) \<noteq> Finite 0"
  using assms
  by (intro dmul_sqrt_range Math_sqrt_range) (auto dest: sum_squares_finite_nonzero)

lemma dot_product_commute: "dot_product a b = dot_product b a"
proof -
  have "foldl (\<lambda>s (x, y). dadd s (dmul x y)) d (zip a b)
          = foldl (\<lambda>s (x, y). dadd s (dmul x y)) d (zip b a)" for d
  proof (induction a arbitrary: b d)
    case Nil
    then show ?case by simp
  next
    case (Cons x xs)
    then show ?case by (cases b) (simp_all add: dmul_commute)
  qed
  then show ?thesis by (simp add: dot_product_def)
qed

lemma cosine_symmetric: "calculateCosineSimilarity a b = calculateCosineSimilarity b a"
  unfolding cosine_unfold dot_product_commute [of a b]
    dmul_commute [of "Math_sqrt (sum_squares a)"]
  by auto

lemma sum_squares_zeros: "\<forall>x \<in> set a. x = Finite 0 \<Longrightarrow> sum_squares a = Finite 0"
proof (induction a rule: rev_induct)
  case Nil
  then show ?case by (simp add: sum_squares_Nil)
next
  case (snoc x xs)
  then show ?case by (simp add: sum_squares_snoc fl_0)
qed

lemma cosine_zero_cases:
  "length a \<noteq> length b \<or> a = [] \<or> b = [] \<or> sum_squares a = Finite 0 \<or> sum_squares b = Finite 0 \<or>
   (\<forall>x \<in> set a. x = Finite 0) \<or> (\<forall>x \<in> set b. x = Finite 0) \<Longrightarrow>
   calculateCosineSimilarity a b = Finite 0"
  unfolding cosine_unfold using sum_squares_zeros sum_squares_Nil by auto

lemma cosine_divisor:
  "length a = length b \<and> sum_squares a \<noteq> Finite 0 \<and> sum_squares b \<noteq> Finite 0 \<Longrightarrow>
   dmul (Math_sqrt (sum_squares a)) (Math_sqrt (sum_squares b)) \<noteq> Finite 0 \<and>
   calculateCosineSimilarity a b =
     ddiv (dot_product a b) (dmul (Math_sqrt (sum_squares a)) (Math_sqrt (sum_squares b)))"
  using divisor_nonzero [of a b] by (simp add: cosine_unfold)

text \<open>
  Claim C7, as the code has it in double precision. The cosine similarity is symmetric. It
  is exactly 0 when a vector is empty, when the dimensions differ, when a computed sum of
  squares is 0 and, in particular, when all components of a vector are 0. In every other
  case the function returns the rounded quotient of the computed dot product by the
  product of the two square roots, and that divisor is not 0: no call divides by zero, and
  every call returns. For unit vectors the value of the expression in exact arithmetic
  lies in \<open>[-1, 1]\<close>; the value that the function returns need not, as the unit vector
  further down shows.
\<close>

theorem cosine_similarity_properties:
  "calculateCosineSimilarity a b = calculateCosineSimilarity b a \<and>
   (a = [] \<or> b = [] \<or> length a \<noteq> length b \<or>
    sum_squares a = Finite 0 \<or> sum_squares b = Finite 0 \<or>
    (\<forall>x \<in> set a. x = Finite 0) \<or> (\<forall>x \<in> set b. x = Finite 0)
      \<longrightarrow> calculateCosineSimilarity a b = Finite 0) \<and>
   (length a = length b \<and> sum_squares a \<noteq> Finite 0 \<and> sum_squares b \<noteq> Finite 0 \<longrightarrow>
      dmul (Math_sqrt (sum_squares a)) (Math_sqrt (sum_squares b)) \<noteq> Finite 0 \<and>
      calculateCosineSimilarity a b =
        ddiv (dot_product a b) (dmul (Math_sqrt (sum_squares a)) (Math_sqrt (sum_squares b)))) \<and>
   (vec_norm u = 1 \<and> vec_norm v = 1 \<longrightarrow>
      (\<exists>r. calculateCosineSimilarity_exact u v = Some r \<and> - 1 \<le> r \<and> r \<le> 1))"
proof (intro conjI impI)
  show "calculateCosineSimilarity a b = calculateCosineSimilarity b a"
    by (rule cosine_symmetric)
next
  assume "vec_norm u = 1 \<and> vec_norm v = 1"
  obtain r where r: "calculateCosineSimilarity_exact u v = Some r"
    using cosine_exact_defined by blast
  then show "\<exists>r. calculateCosineSimilarity_exact u v = Some r \<and> - 1 \<le> r \<and> r \<le> 1"
    using cosine_exact_bounded [OF r] by simp
next
  assume "a = [] \<or> b = [] \<or> length a \<noteq> length b \<or>
    sum_squares a = Finite 0 \<or> sum_squares b = Finite 0 \<or>
    (\<forall>x \<in> set a. x = Finite 0) \<or> (\<forall>x \<in> set b. x = Finite 0)"
  then show "calculateCosineSimilarity a b = Finite 0"
    by (intro cosine_zero_cases) blast
next
  assume h: "length a = length b \<and> sum_squares a \<noteq> Finite 0 \<and> sum_squares b \<noteq> Finite 0"
  show "dmul (Math_sqrt (sum_squares a)) (Math_sqrt (sum_squares b)) \<noteq> Finite 0"
    using cosine_divisor [OF h] by (rule conjunct1)
  show "calculateCosineSimilarity a b =
        ddiv (dot_product a b) (dmul (Math_sqrt (sum_squares a)) (Math_sqrt (sum_squares b)))"
    using cosine_divisor [OF h] by (rule conjunct2)
qed

theorem cosine_similarity_witness:
  "calculateCosineSimilarity [Finite 1, Finite 0] [Finite 0, Finite 1]
     = calculateCosineSimilarity [Finite 0, Finite 1] [Finite 1, Finite 0] \<and>
   length [Finite 1] \<noteq> length [Finite 1, Finite 0] \<and>
   calculateCosineSimilarity [Finite 1] [Finite 1, Finite 0] = Finite 0 \<and>
   list_all (\<lambda>x. x = Finite 0) [Finite 0, Finite 0] \<and>
   calculateCosineSimilarity [Finite 0, Finite 0] [Finite 1, Finite 2] = Finite 0 \<and>
   sum_squares [Finite 1, Finite 0] = Finite 1 \<and>
   dmul (Math_sqrt (sum_squares [Finite 1, Finite 0])) (Math_sqrt (sum_squares [Finite 1, Finite 0]))
     = Finite 1 \<and>
   calculateCosineSimilarity [Finite 1, Finite 0] [Finite 1, Finite 0] = Finite 1 \<and>
   vec_norm [3 / 5, 4 / 5] = 1 \<and> vec_norm [1, 0] = 1 \<and>
   (\<exists>r. calculateCosineSimilarity_exact [3 / 5, 4 / 5] [1, 0] = Some r \<and> - 1 \<le> r \<and> r \<le> 1)"
proof -
  have u: "vec_norm [3 / 5, 4 / 5] = 1 \<and> vec_norm [1, 0] = 1" by (simp add: vec_norm_def)
  have e: "\<exists>r. calculateCosineSimilarity_exact [3 / 5, 4 / 5] [1, 0] = Some r \<and> - 1 \<le> r \<and> r \<le> 1"
    by (rule cosine_similarity_properties [THEN conjunct2, THEN conjunct2, THEN conjunct2,
          THEN mp, OF u])
  have s: "sum_squares [Finite 1, Finite 0] = Finite 1"
    by (simp add: sum_squares_def fl_0 fl_1)
  have d: "dot_product [Finite 1, Finite 0] [Finite 1, Finite 0] = Finite 1"
    by (simp add: dot_product_def fl_0 fl_1)
  have q: "Math_sqrt (Finite 1) = Finite 1" by (simp add: fl_1)
  have m: "dmul (Finite 1) (Finite 1) = Finite 1" by (simp add: fl_1)
  have v: "ddiv (Finite 1) (Finite 1) = Finite 1" by (simp add: fl_1)
  have h: "length [Finite 1, Finite 0] = length [Finite 1, Finite 0] \<and>
           sum_squares [Finite 1, Finite 0] \<noteq> Finite 0 \<and> sum_squares [Finite 1, Finite 0] \<noteq> Finite 0"
    by (simp add: s)
  have one: "calculateCosineSimilarity [Finite 1, Finite 0] [Finite 1, Finite 0] = Finite 1"
    using cosine_similarity_properties [of "[Finite 1, Finite 0]" "[Finite 1, Finite 0]",
        THEN conjunct2, THEN conjunct2, THEN conjunct1, THEN mp, OF h, THEN conjunct2]
    by (simp only: s d q m v)
  have len: "calculateCosineSimilarity [Finite 1] [Finite 1, Finite 0] = Finite 0"
    by (rule cosine_similarity_properties [of "[Finite 1]" "[Finite 1, Finite 0]",
          THEN conjunct2, THEN conjunct1, THEN mp]) simp
  have zero: "calculateCosineSimilarity [Finite 0, Finite 0] [Finite 1, Finite 2] = Finite 0"
    by (rule cosine_similarity_properties [of "[Finite 0, Finite 0]" "[Finite 1, Finite 2]",
          THEN conjunct2, THEN conjunct1, THEN mp]) simp
  have sym: "calculateCosineSimilarity [Finite 1, Finite 0] [Finite 0, Finite 1]
     = calculateCosineSimilarity [Finite 0, Finite 1] [Finite 1, Finite 0]"
    by (rule cosine_similarity_properties [THEN conjunct1])
  show ?thesis using s q m one len zero sym u e by simp
qed

subsection \<open>A unit vector in double precision\<close>

lemma ex_sum_squares:
  "sum_squares (map Finite [268435455 / 268435456, 19488 / 268435456, 11777 / 268435456,
       2882 / 268435456, 3175 / 268435456, 67 / 268435456])
     = Finite (9007199254740991 / 9007199254740992)"
proof -
  have sq0: "dmul (Finite (268435455 / 268435456)) (Finite (268435455 / 268435456)) = Finite (134217727 / 134217728)"
    using fl_nearest [where e = "-1" and x = "(268435455 / 268435456) * (268435455 / 268435456)" and m = "9007199187632128"]
    by (simp add: powr_neg_numeral)
  have ad0: "dadd (Finite 0) (Finite (134217727 / 134217728)) = Finite (134217727 / 134217728)"
    using fl_nearest [where e = "-1" and x = "(0) + (134217727 / 134217728)" and m = "9007199187632128"]
    by (simp add: powr_neg_numeral)
  have sq1: "dmul (Finite (19488 / 268435456)) (Finite (19488 / 268435456)) = Finite (370881 / 70368744177664)"
    using fl_nearest [where e = "-28" and x = "(19488 / 268435456) * (19488 / 268435456)" and m = "6371687062831104"]
    by (simp add: powr_neg_numeral)
  have ad1: "dadd (Finite (134217727 / 134217728)) (Finite (370881 / 70368744177664)) = Finite (70368744024257 / 70368744177664)"
    using fl_nearest [where e = "-1" and x = "(134217727 / 134217728) + (370881 / 70368744177664)" and m = "9007199235104896"]
    by (simp add: powr_neg_numeral)
  have sq2: "dmul (Finite (11777 / 268435456)) (Finite (11777 / 268435456)) = Finite (138697729 / 72057594037927936)"
    using fl_nearest [where e = "-29" and x = "(11777 / 268435456) * (11777 / 268435456)" and m = "4653923516284928"]
    by (simp add: powr_neg_numeral)
  have ad2: "dadd (Finite (70368744024257 / 70368744177664)) (Finite (138697729 / 72057594037927936)) = Finite (8796093019963 / 8796093022208)"
    using fl_nearest [where e = "-1" and x = "(70368744024257 / 70368744177664) + (138697729 / 72057594037927936)" and m = "9007199252442112"]
    by (simp add: powr_neg_numeral)
  have sq3: "dmul (Finite (2882 / 268435456)) (Finite (2882 / 268435456)) = Finite (2076481 / 18014398509481984)"
    using fl_nearest [where e = "-34" and x = "(2882 / 268435456) * (2882 / 268435456)" and m = "8918417985765376"]
    by (simp add: powr_neg_numeral)
  have ad3: "dadd (Finite (8796093019963 / 8796093022208)) (Finite (2076481 / 18014398509481984)) = Finite (281474976671261 / 281474976710656)"
    using fl_tie [where e = "-1" and x = "(8796093019963 / 8796093022208) + (2076481 / 18014398509481984)" and f = "9007199253480352"]
    by (simp add: powr_neg_numeral)
  have sq4: "dmul (Finite (3175 / 268435456)) (Finite (3175 / 268435456)) = Finite (10080625 / 72057594037927936)"
    using fl_nearest [where e = "-33" and x = "(3175 / 268435456) * (3175 / 268435456)" and m = "5411994337280000"]
    by (simp add: powr_neg_numeral)
  have ad4: "dadd (Finite (281474976671261 / 281474976710656)) (Finite (10080625 / 72057594037927936)) = Finite (4503599627370215 / 4503599627370496)"
    using fl_nearest [where e = "-1" and x = "(281474976671261 / 281474976710656) + (10080625 / 72057594037927936)" and m = "9007199254740430"]
    by (simp add: powr_neg_numeral)
  have sq5: "dmul (Finite (67 / 268435456)) (Finite (67 / 268435456)) = Finite (4489 / 72057594037927936)"
    using fl_nearest [where e = "-44" and x = "(67 / 268435456) * (67 / 268435456)" and m = "4935707697086464"]
    by (simp add: powr_neg_numeral)
  have ad5: "dadd (Finite (4503599627370215 / 4503599627370496)) (Finite (4489 / 72057594037927936)) = Finite (9007199254740991 / 9007199254740992)"
    using fl_nearest [where e = "-1" and x = "(4503599627370215 / 4503599627370496) + (4489 / 72057594037927936)" and m = "9007199254740991"]
    by (simp add: powr_neg_numeral)
  have "sum_squares (map Finite [268435455 / 268435456, 19488 / 268435456, 11777 / 268435456,
       2882 / 268435456, 3175 / 268435456, 67 / 268435456])
     = dadd (dadd (dadd (dadd (dadd (dadd (Finite 0)
         (dmul (Finite (268435455 / 268435456)) (Finite (268435455 / 268435456))))
         (dmul (Finite (19488 / 268435456)) (Finite (19488 / 268435456))))
         (dmul (Finite (11777 / 268435456)) (Finite (11777 / 268435456))))
         (dmul (Finite (2882 / 268435456)) (Finite (2882 / 268435456))))
         (dmul (Finite (3175 / 268435456)) (Finite (3175 / 268435456))))
         (dmul (Finite (67 / 268435456)) (Finite (67 / 268435456)))"
    by (simp only: sum_squares_def list.map foldl_Cons foldl_Nil)
  also have "\<dots> = Finite (9007199254740991 / 9007199254740992)"
    by (simp only: sq0 ad0 sq1 ad1 sq2 ad2 sq3 ad3 sq4 ad4 sq5 ad5)
  finally show ?thesis .
qed

lemma ex_sqrt:
  "Math_sqrt (Finite (9007199254740991 / 9007199254740992))
     = Finite (9007199254740991 / 9007199254740992)"
proof -
  define r :: real where "r = sqrt (9007199254740991 / 9007199254740992)"
  have lo: "18014398509481981 / 18014398509481984 < r"
    unfolding r_def by (rule real_less_rsqrt) (simp add: power2_eq_square)
  have hi: "r < 18014398509481983 / 18014398509481984"
    unfolding r_def by (rule real_less_lsqrt) (simp_all add: power2_eq_square)
  have "fl r = Finite (9007199254740991 / 9007199254740992)"
    using fl_nearest [where e = "-1" and x = r and m = "9007199254740991"] lo hi
    by (simp add: powr_neg_numeral)
  then show ?thesis by (simp add: r_def)
qed

lemma ex_divisor:
  "dmul (Finite (9007199254740991 / 9007199254740992)) (Finite (9007199254740991 / 9007199254740992))
     = Finite (4503599627370495 / 4503599627370496)"
  using fl_nearest [where e = "-1"
      and x = "(9007199254740991 / 9007199254740992) * (9007199254740991 / 9007199254740992)"
      and m = "9007199254740990"]
  by (simp add: powr_neg_numeral)

lemma ex_quotient:
  "ddiv (Finite (9007199254740991 / 9007199254740992)) (Finite (4503599627370495 / 4503599627370496))
     = Finite (4503599627370497 / 4503599627370496)"
  using fl_nearest [where e = "0"
      and x = "(9007199254740991 / 9007199254740992) / (4503599627370495 / 4503599627370496)"
      and m = "4503599627370497"]
  by (simp add: powr_neg_numeral)

lemma ex_cosine:
  "calculateCosineSimilarity
     (map Finite [268435455 / 268435456, 19488 / 268435456, 11777 / 268435456,
        2882 / 268435456, 3175 / 268435456, 67 / 268435456])
     (map Finite [268435455 / 268435456, 19488 / 268435456, 11777 / 268435456,
        2882 / 268435456, 3175 / 268435456, 67 / 268435456])
   = Finite (4503599627370497 / 4503599627370496)"
  unfolding cosine_unfold dot_product_self ex_sum_squares ex_sqrt ex_divisor ex_quotient
  by simp

text \<open>
  The claim as written fails on its last part. The six components below are doubles (each
  is its own rounding), the sum of their squares is exactly 1, and the similarity of the
  vector with itself comes out as \<open>1 + 2 powr - 52\<close>, the double printed as
  \<open>1.0000000000000002\<close>: the sum of squares rounds to \<open>1 - 2 powr - 53\<close>, its square root
  to the same number, the product of the two roots to \<open>1 - 2 powr - 52\<close>, and the quotient
  upwards.
\<close>

theorem cosine_unit_vector_counterexample:
  "vec_norm [268435455 / 268435456, 19488 / 268435456, 11777 / 268435456,
        2882 / 268435456, 3175 / 268435456, 67 / 268435456] = 1 \<and>
   map fl [268435455 / 268435456, 19488 / 268435456, 11777 / 268435456,
        2882 / 268435456, 3175 / 268435456, 67 / 268435456]
     = map Finite [268435455 / 268435456, 19488 / 268435456, 11777 / 268435456,
        2882 / 268435456, 3175 / 268435456, 67 / 268435456] \<and>
   calculateCosineSimilarity
     (map Finite [268435455 / 268435456, 19488 / 268435456, 11777 / 268435456,
        2882 / 268435456, 3175 / 268435456, 67 / 268435456])
     (map Finite [268435455 / 268435456, 19488 / 268435456, 11777 / 268435456,
        2882 / 268435456, 3175 / 268435456, 67 / 268435456])
   = Finite (4503599627370497 / 4503599627370496) \<and>
   \<not> 4503599627370497 / 4503599627370496 \<le> (1 :: real)"
proof -
  have n: "vec_norm [268435455 / 268435456, 19488 / 268435456, 11777 / 268435456,
        2882 / 268435456, 3175 / 268435456, 67 / 268435456] = 1"
    by (simp add: vec_norm_def)
  have r0: "fl (268435455 / 268435456) = Finite (268435455 / 268435456)"
    using fl_nearest [where e = "-1" and x = "268435455 / 268435456" and m = "9007199221186560"]
    by (simp add: powr_neg_numeral)
  have r1: "fl (19488 / 268435456) = Finite (19488 / 268435456)"
    using fl_nearest [where e = "-14" and x = "19488 / 268435456" and m = "5356820650524672"]
    by (simp add: powr_neg_numeral)
  have r2: "fl (11777 / 268435456) = Finite (11777 / 268435456)"
    using fl_nearest [where e = "-15" and x = "11777 / 268435456" and m = "6474474220158976"]
    by (simp add: powr_neg_numeral)
  have r3: "fl (2882 / 268435456) = Finite (2882 / 268435456)"
    using fl_nearest [where e = "-17" and x = "2882 / 268435456" and m = "6337585022500864"]
    by (simp add: powr_neg_numeral)
  have r4: "fl (3175 / 268435456) = Finite (3175 / 268435456)"
    using fl_nearest [where e = "-17" and x = "3175 / 268435456" and m = "6981898836377600"]
    by (simp add: powr_neg_numeral)
  have r5: "fl (67 / 268435456) = Finite (67 / 268435456)"
    using fl_nearest [where e = "-22" and x = "67 / 268435456" and m = "4714705859903488"]
    by (simp add: powr_neg_numeral)
  have r: "map fl [268435455 / 268435456, 19488 / 268435456, 11777 / 268435456,
        2882 / 268435456, 3175 / 268435456, 67 / 268435456]
     = map Finite [268435455 / 268435456, 19488 / 268435456, 11777 / 268435456,
        2882 / 268435456, 3175 / 268435456, 67 / 268435456]"
    by (simp only: list.map r0 r1 r2 r3 r4 r5)
  have g: "\<not> 4503599627370497 / 4503599627370496 \<le> (1 :: real)" by simp
  show ?thesis using n r ex_cosine g by (intro conjI)
qed

text \<open>Three equal components: the same result, \<open>1 + 2 powr - 52\<close>, on a vector that is not a unit vector.\<close>

lemma cosine_ones_example:
  "calculateCosineSimilarity [Finite 1, Finite 1, Finite 1] [Finite 1, Finite 1, Finite 1]
     = Finite (4503599627370497 / 4503599627370496)"
proof -
  have a2: "fl 2 = Finite 2"
    using fl_nearest [where e = 1 and x = 2 and m = "4503599627370496"]
    by (simp add: powr_neg_numeral)
  have a3: "fl 3 = Finite 3"
    using fl_nearest [where e = 1 and x = 3 and m = "6755399441055744"]
    by (simp add: powr_neg_numeral)
  have s: "sum_squares [Finite 1, Finite 1, Finite 1] = Finite 3"
    by (simp add: sum_squares_def fl_1 a2 a3)
  define r :: real where "r = sqrt 3"
  have lo: "15600926743107923 / 9007199254740992 < r"
    unfolding r_def by (rule real_less_rsqrt) (simp add: power2_eq_square)
  have hi: "r < 15600926743107925 / 9007199254740992"
    unfolding r_def by (rule real_less_lsqrt) (simp_all add: power2_eq_square)
  have "fl r = Finite (3900231685776981 / 2251799813685248)"
    using fl_nearest [where e = 0 and x = r and m = "7800463371553962"] lo hi
    by (simp add: powr_neg_numeral)
  then have q: "Math_sqrt (Finite 3) = Finite (3900231685776981 / 2251799813685248)"
    by (simp add: r_def)
  have m: "dmul (Finite (3900231685776981 / 2251799813685248)) (Finite (3900231685776981 / 2251799813685248))
             = Finite (6755399441055743 / 2251799813685248)"
    using fl_nearest [where e = 1
        and x = "(3900231685776981 / 2251799813685248) * (3900231685776981 / 2251799813685248)"
        and m = "6755399441055743"]
    by (simp add: powr_neg_numeral)
  have d: "ddiv (Finite 3) (Finite (6755399441055743 / 2251799813685248))
             = Finite (4503599627370497 / 4503599627370496)"
    using fl_nearest [where e = 0 and x = "3 / (6755399441055743 / 2251799813685248)"
        and m = "4503599627370497"]
    by (simp add: powr_neg_numeral)
  show ?thesis
    unfolding cosine_unfold dot_product_self s q m d by simp
qed

text \<open>
  A square that overflows makes both the dot product and the divisor infinite, and the
  quotient of two infinities is \<open>NaN\<close>.
\<close>

lemma cosine_overflow_is_NaN:
  "calculateCosineSimilarity [Finite (2 ^ 600), Finite 0] [Finite (2 ^ 600), Finite 0] = NaN"
proof -
  have "(2 ^ 1024 :: real) \<le> 2 ^ 600 * 2 ^ 600"
    unfolding power_add [symmetric] by (rule power_increasing) simp_all
  then have sq: "dmul (Finite (2 ^ 600)) (Finite (2 ^ 600)) = PosInf"
    by (simp only: dmul.simps fl_overflow)
  have z: "dmul (Finite 0) (Finite 0) = Finite 0" by (simp add: fl_0)
  have "sum_squares [Finite (2 ^ 600), Finite 0] = PosInf"
    by (simp only: sum_squares_def foldl_Cons foldl_Nil sq z dadd.simps)
  then show ?thesis
    unfolding cosine_unfold dot_product_self by simp
qed

section \<open>Properties of the comparator sort\<close>

lemma js_insert_set [simp]: "set (js_insert cmp x ys) = insert x (set ys)"
  by (induction ys) auto

lemma js_insert_length [simp]: "length (js_insert cmp x ys) = Suc (length ys)"
  by (induction ys) auto

lemma js_sort_Nil [simp]: "js_sort cmp [] = []"
  by (simp add: js_sort_def)

lemma js_sort_Cons [simp]: "js_sort cmp (x # xs) = js_insert cmp x (js_sort cmp xs)"
  by (simp add: js_sort_def)

lemma js_sort_set [simp]: "set (js_sort cmp xs) = set xs"
  by (induction xs) simp_all

lemma js_sort_length [simp]: "length (js_sort cmp xs) = length xs"
  by (induction xs) simp_all

lemma js_insert_distinct_map:
  "distinct (map f (js_insert cmp x ys)) = (f x \<notin> f ` set ys \<and> distinct (map f ys))"
  by (induction ys) auto

lemma js_insert_mset [simp]: "mset (js_insert cmp x ys) = add_mset x (mset ys)"
  by (induction ys) auto

lemma js_sort_mset [simp]: "mset (js_sort cmp xs) = mset xs"
  by (induction xs) simp_all

lemma js_sort_distinct_map: "distinct (map f (js_sort cmp xs)) = distinct (map f xs)"
  by (induction xs) (simp_all add: js_insert_distinct_map)

lemma js_insert_sorted:
  assumes tot: "\<And>x y. \<not> cmp x y \<le> 0 \<Longrightarrow> cmp y x \<le> 0"
      and trans: "\<And>x y z. cmp x y \<le> 0 \<Longrightarrow> cmp y z \<le> 0 \<Longrightarrow> cmp x z \<le> 0"
  shows "sorted_wrt (\<lambda>a b. cmp a b \<le> 0) ys \<Longrightarrow> sorted_wrt (\<lambda>a b. cmp a b \<le> 0) (js_insert cmp x ys)"
proof (induction ys)
  case Nil
  then show ?case by simp
next
  case (Cons y ys)
  show ?case
  proof (cases "cmp x y \<le> 0")
    case True
    then have "\<forall>z \<in> set ys. cmp x z \<le> 0" using Cons.prems trans by auto
    then show ?thesis using True Cons.prems by simp
  next
    case False
    then have "cmp y x \<le> 0" by (rule tot)
    then show ?thesis using False Cons by auto
  qed
qed

lemma js_sort_sorted:
  assumes tot: "\<And>x y. \<not> cmp x y \<le> 0 \<Longrightarrow> cmp y x \<le> 0"
      and trans: "\<And>x y z. cmp x y \<le> 0 \<Longrightarrow> cmp y z \<le> 0 \<Longrightarrow> cmp x z \<le> 0"
  shows "sorted_wrt (\<lambda>a b. cmp a b \<le> 0) (js_sort cmp xs)"
proof (induction xs)
  case Nil
  then show ?case by simp
next
  case (Cons x xs)
  then show ?case using js_insert_sorted [of cmp, OF tot trans] by simp
qed

lemma js_sort_by_key:
  assumes "\<And>a b. cmp a b = key b - key a"
  shows "sorted_wrt (\<lambda>a b. (key b :: real) \<le> key a) (js_sort cmp xs)"
proof -
  have "sorted_wrt (\<lambda>a b. cmp a b \<le> 0) (js_sort cmp xs)"
    by (rule js_sort_sorted) (simp_all add: assms)
  then show ?thesis by (simp add: assms)
qed

section \<open>Retrieval from a bucket\<close>

lemma order_by_cmp_le: "order_by_cmp a b \<le> 0 \<longleftrightarrow> score_then_recency a b"
  by (auto simp: order_by_cmp_def score_then_recency_def)

lemma findMany_sorted: "sorted_wrt score_then_recency (findMany_chunks s bid minScore limit)"
proof -
  have "sorted_wrt (\<lambda>a b. order_by_cmp a b \<le> 0)
          (js_sort order_by_cmp (filter (\<lambda>c. bucketId c = bid \<and> minScore \<le> score c) (memoryChunk s)))"
    by (rule js_sort_sorted) (auto simp: order_by_cmp_le score_then_recency_def)
  then show ?thesis
    unfolding findMany_chunks_def order_by_cmp_le by (rule sorted_wrt_take)
qed

lemma findMany_set:
  "set (findMany_chunks s bid minScore limit)
     \<subseteq> {c \<in> set (memoryChunk s). bucketId c = bid \<and> minScore \<le> score c}"
  unfolding findMany_chunks_def using set_take_subset [of limit] by fastforce

lemma findMany_all:
  assumes "length (findMany_chunks s bid minScore limit) < limit"
  shows "set (findMany_chunks s bid minScore limit)
           = {c \<in> set (memoryChunk s). bucketId c = bid \<and> minScore \<le> score c}"
proof -
  let ?xs = "js_sort order_by_cmp (filter (\<lambda>c. bucketId c = bid \<and> minScore \<le> score c) (memoryChunk s))"
  have "length (take limit ?xs) < limit" using assms by (simp add: findMany_chunks_def)
  then have "take limit ?xs = ?xs" by (simp add: min_def split: if_splits)
  then show ?thesis by (auto simp: findMany_chunks_def)
qed

lemma findMany_length: "length (findMany_chunks s bid minScore limit) \<le> limit"
  by (simp add: findMany_chunks_def)

lemma findMany_distinct:
  "distinct (map chunk_id (memoryChunk s)) \<Longrightarrow>
   distinct (map chunk_id (findMany_chunks s bid minScore limit))"
  unfolding findMany_chunks_def
  by (simp add: take_map [symmetric] distinct_take js_sort_distinct_map distinct_map_filter)

lemma first_of_take_sort:
  assumes "sorted_wrt before (js_sort cmp xs)"
  shows "first_of before n xs (take n (js_sort cmp xs))"
  unfolding first_of_def
proof (intro exI [of _ "drop n (js_sort cmp xs)"] conjI)
  show "mset (take n (js_sort cmp xs) @ drop n (js_sort cmp xs)) = mset xs" by simp
  show "sorted_wrt before (take n (js_sort cmp xs) @ drop n (js_sort cmp xs))"
    using assms by simp
  show "length (take n (js_sort cmp xs)) = min n (length xs)" by (simp add: min.commute)
qed

lemma findMany_first:
  "first_of score_then_recency limit (eligible s bid minScore) (findMany_chunks s bid minScore limit)"
proof -
  have "sorted_wrt (\<lambda>a b. order_by_cmp a b \<le> 0) (js_sort order_by_cmp (eligible s bid minScore))"
    by (rule js_sort_sorted) (auto simp: order_by_cmp_le score_then_recency_def)
  then have "sorted_wrt score_then_recency (js_sort order_by_cmp (eligible s bid minScore))"
    unfolding order_by_cmp_le .
  then show ?thesis
    unfolding findMany_chunks_def eligible_def [symmetric] by (rule first_of_take_sort)
qed

lemma touch_all_ok:
  "set ids \<subseteq> chunk_id ` set (memoryChunk s) \<Longrightarrow> distinct ids \<Longrightarrow>
   touch_all now ids s =
     Inr (s\<lparr>memoryChunk := map (\<lambda>c. if chunk_id c \<in> set ids then touch now c else c) (memoryChunk s)\<rparr>)"
proof (induction ids arbitrary: s)
  case Nil
  then show ?case by simp
next
  case (Cons i ids)
  let ?f = "\<lambda>c. c\<lparr>lastAccessed := now, accessCount := accessCount c + 1\<rparr>"
  let ?s1 = "s\<lparr>memoryChunk := map (\<lambda>c. if chunk_id c = i then ?f c else c) (memoryChunk s)\<rparr>"
  have upd: "update_chunk i ?f s = Inr ?s1"
    using Cons.prems by (auto simp: update_chunk_def has_chunk_def)
  have "map chunk_id (memoryChunk ?s1) = map chunk_id (memoryChunk s)"
    by (simp add: o_def if_distrib [of chunk_id])
  then have ids1: "chunk_id ` set (memoryChunk ?s1) = chunk_id ` set (memoryChunk s)"
    by (metis list.set_map)
  have sub: "set ids \<subseteq> chunk_id ` set (memoryChunk ?s1)"
    unfolding ids1 using Cons.prems by simp
  have dis: "distinct ids" using Cons.prems by simp
  have "touch_all now ids ?s1 =
     Inr (?s1\<lparr>memoryChunk := map (\<lambda>c. if chunk_id c \<in> set ids then touch now c else c) (memoryChunk ?s1)\<rparr>)"
    by (rule Cons.IH [OF sub dis])
  moreover have "map (\<lambda>c. if chunk_id c \<in> set ids then touch now c else c) (memoryChunk ?s1)
      = map (\<lambda>c. if chunk_id c \<in> set (i # ids) then touch now c else c) (memoryChunk s)"
    using Cons.prems by (auto simp: touch_def)
  ultimately show ?case using upd by simp
qed

lemma find_bucket_None:
  "bucketName \<notin> bucket_name ` set (memoryBucket s) \<Longrightarrow> findUnique_bucket s bucketName = None"
  by (auto simp: findUnique_bucket_def find_None_iff)

lemma find_bucket_Some:
  "bucketName \<in> bucket_name ` set (memoryBucket s) \<Longrightarrow>
   \<exists>b \<in> set (memoryBucket s). bucket_name b = bucketName \<and> findUnique_bucket s bucketName = Some b"
proof -
  assume "bucketName \<in> bucket_name ` set (memoryBucket s)"
  then have "find (\<lambda>b. bucket_name b = bucketName) (memoryBucket s) \<noteq> None"
    by (auto simp: find_None_iff)
  then obtain b where b: "find (\<lambda>b. bucket_name b = bucketName) (memoryBucket s) = Some b" by auto
  then have "b \<in> set (memoryBucket s) \<and> bucket_name b = bucketName"
    by (auto simp: find_Some_iff)
  then show ?thesis using b by (auto simp: findUnique_bucket_def)
qed

lemma similarity_sorted:
  "sorted_wrt (\<lambda>a b. js_or (snd b) 0 \<le> js_or (snd a) 0) (js_sort similarity_cmp xs)"
  by (rule js_sort_by_key) (simp add: similarity_cmp_def)

lemma getMemories_contract:
  "(bucketName \<notin> bucket_name ` set (memoryBucket s) \<longrightarrow>
      getMemoriesFromBucket now s bucketName queryEmbedding limit minScore
        = Inl (BucketNotFound bucketName)) \<and>
   (bucketName \<in> bucket_name ` set (memoryBucket s) \<and> distinct (map chunk_id (memoryChunk s)) \<longrightarrow>
      (\<exists>chunks s'.
         getMemoriesFromBucket now s bucketName queryEmbedding limit minScore = Inr (chunks, s') \<and>
         (\<forall>x \<in> set chunks. fst x \<in> set (memoryChunk s) \<and> minScore \<le> score (fst x)) \<and>
         length chunks \<le> limit \<and>
         s' = s\<lparr>memoryChunk :=
                 map (\<lambda>c. if chunk_id c \<in> chunk_id ` fst ` set chunks then touch now c else c)
                   (memoryChunk s)\<rparr> \<and>
         (queryEmbedding = None \<or> queryEmbedding = Some [] \<longrightarrow>
            sorted_wrt score_then_recency (map fst chunks) \<and> (\<forall>x \<in> set chunks. snd x = None)) \<and>
         (\<forall>q. queryEmbedding = Some q \<and> q \<noteq> [] \<longrightarrow>
            sorted_wrt (\<lambda>a b. js_or (snd b) 0 \<le> js_or (snd a) 0) chunks \<and>
            (\<forall>x \<in> set chunks. snd x = calculateCosineSimilarity_exact q (embedding (fst x)))) \<and>
         (\<exists>(bucket :: memory_bucket) page.
            findUnique_bucket s bucketName = Some bucket \<and>
            bucket \<in> set (memoryBucket s) \<and> bucket_name bucket = bucketName \<and>
            first_of score_then_recency limit (eligible s (bucket_id bucket) minScore) page \<and>
            mset (map fst chunks) = mset page \<and>
            (queryEmbedding = None \<or> queryEmbedding = Some [] \<longrightarrow> map fst chunks = page))))"
proof (intro conjI impI)
  assume "bucketName \<notin> bucket_name ` set (memoryBucket s)"
  then show "getMemoriesFromBucket now s bucketName queryEmbedding limit minScore
               = Inl (BucketNotFound bucketName)"
    by (simp add: getMemoriesFromBucket_def find_bucket_None)
next
  assume a: "bucketName \<in> bucket_name ` set (memoryBucket s) \<and> distinct (map chunk_id (memoryChunk s))"
  then obtain b :: memory_bucket where b: "findUnique_bucket s bucketName = Some b"
      and b_in: "b \<in> set (memoryBucket s)" "bucket_name b = bucketName"
    using find_bucket_Some by blast
  define found where "found = findMany_chunks s (bucket_id b) minScore limit"
  define chunks where "chunks =
     (case queryEmbedding of
        None \<Rightarrow> map (\<lambda>c. (c, None)) found
      | Some q \<Rightarrow>
          if 0 < length q
          then js_sort similarity_cmp (map (\<lambda>c. (c, calculateCosineSimilarity_exact q (embedding c))) found)
          else map (\<lambda>c. (c, None)) found)"
  have fst_set: "fst ` set chunks = set found"
    by (auto simp: chunks_def image_iff split: option.splits)
  have fst_cases: "map fst chunks = found \<or> (\<exists>q. queryEmbedding = Some q \<and> q \<noteq> [])"
    by (auto simp: chunks_def o_def split: option.splits)
  have len: "length chunks = length found"
    by (simp add: chunks_def split: option.splits)
  have dist_found: "distinct (map chunk_id found)"
    unfolding found_def using a by (simp add: findMany_distinct)
  have "distinct (map (chunk_id \<circ> fst) chunks)"
    using dist_found by (auto simp: chunks_def js_sort_distinct_map o_def split: option.splits)
  moreover have "set (map (chunk_id \<circ> fst) chunks) \<subseteq> chunk_id ` set (memoryChunk s)"
    using fst_set findMany_set [of s "bucket_id b" minScore limit]
    by (auto simp: found_def image_iff)
  ultimately have touch: "touch_all now (map (chunk_id \<circ> fst) chunks) s =
     Inr (s\<lparr>memoryChunk := map (\<lambda>c. if chunk_id c \<in> set (map (chunk_id \<circ> fst) chunks)
                                       then touch now c else c) (memoryChunk s)\<rparr>)"
    by (simp add: touch_all_ok)
  have ids_eq: "set (map (chunk_id \<circ> fst) chunks) = chunk_id ` fst ` set chunks"
    by (simp only: set_map image_comp)
  have unfold: "getMemoriesFromBucket now s bucketName queryEmbedding limit minScore =
     (case touch_all now (map (chunk_id \<circ> fst) chunks) s of
        Inl e \<Rightarrow> Inl e
      | Inr s' \<Rightarrow> Inr (chunks, s'))"
    unfolding getMemoriesFromBucket_def chunks_def found_def Let_def b by simp
  have res: "getMemoriesFromBucket now s bucketName queryEmbedding limit minScore =
     Inr (chunks, s\<lparr>memoryChunk := map (\<lambda>c. if chunk_id c \<in> chunk_id ` fst ` set chunks
                                       then touch now c else c) (memoryChunk s)\<rparr>)"
    unfolding unfold touch ids_eq by simp
  have p1: "\<forall>x \<in> set chunks. fst x \<in> set (memoryChunk s) \<and> minScore \<le> score (fst x)"
    using fst_set findMany_set [of s "bucket_id b" minScore limit] by (auto simp: found_def)
  have p2: "length chunks \<le> limit" by (simp add: len found_def findMany_length)
  have p3: "queryEmbedding = None \<or> queryEmbedding = Some [] \<longrightarrow>
            sorted_wrt score_then_recency (map fst chunks) \<and> (\<forall>x \<in> set chunks. snd x = None)"
    using findMany_sorted [of s "bucket_id b" minScore limit]
    by (auto simp: chunks_def found_def o_def)
  have p4: "\<forall>q. queryEmbedding = Some q \<and> q \<noteq> [] \<longrightarrow>
            sorted_wrt (\<lambda>a b. js_or (snd b) 0 \<le> js_or (snd a) 0) chunks \<and>
            (\<forall>x \<in> set chunks. snd x = calculateCosineSimilarity_exact q (embedding (fst x)))"
    by (auto simp: chunks_def similarity_sorted)
  have mset_found: "mset (map fst chunks) = mset found"
    by (auto simp: chunks_def o_def multiset.map_comp split: option.splits)
  have p5: "\<exists>(bucket :: memory_bucket) page.
            findUnique_bucket s bucketName = Some bucket \<and>
            bucket \<in> set (memoryBucket s) \<and> bucket_name bucket = bucketName \<and>
            first_of score_then_recency limit (eligible s (bucket_id bucket) minScore) page \<and>
            mset (map fst chunks) = mset page \<and>
            (queryEmbedding = None \<or> queryEmbedding = Some [] \<longrightarrow> map fst chunks = page)"
    using b b_in mset_found fst_cases findMany_first [of limit s "bucket_id b" minScore]
    unfolding found_def [symmetric]
    by (intro exI [of _ b] exI [of _ found]) auto
  show "\<exists>chunks s'.
         getMemoriesFromBucket now s bucketName queryEmbedding limit minScore = Inr (chunks, s') \<and>
         (\<forall>x \<in> set chunks. fst x \<in> set (memoryChunk s) \<and> minScore \<le> score (fst x)) \<and>
         length chunks \<le> limit \<and>
         s' = s\<lparr>memoryChunk :=
                 map (\<lambda>c. if chunk_id c \<in> chunk_id ` fst ` set chunks then touch now c else c)
                   (memoryChunk s)\<rparr> \<and>
         (queryEmbedding = None \<or> queryEmbedding = Some [] \<longrightarrow>
            sorted_wrt score_then_recency (map fst chunks) \<and> (\<forall>x \<in> set chunks. snd x = None)) \<and>
         (\<forall>q. queryEmbedding = Some q \<and> q \<noteq> [] \<longrightarrow>
            sorted_wrt (\<lambda>a b. js_or (snd b) 0 \<le> js_or (snd a) 0) chunks \<and>
            (\<forall>x \<in> set chunks. snd x = calculateCosineSimilarity_exact q (embedding (fst x)))) \<and>
         (\<exists>(bucket :: memory_bucket) page.
            findUnique_bucket s bucketName = Some bucket \<and>
            bucket \<in> set (memoryBucket s) \<and> bucket_name bucket = bucketName \<and>
            first_of score_then_recency limit (eligible s (bucket_id bucket) minScore) page \<and>
            mset (map fst chunks) = mset page \<and>
            (queryEmbedding = None \<or> queryEmbedding = Some [] \<longrightarrow> map fst chunks = page))"
    using res p1 p2 p3 p4 p5 by blast
qed




section \<open>Decay\<close>

lemma filter_other_ids: "f c \<notin> f ` set xs \<Longrightarrow> filter (\<lambda>x. f x \<noteq> f c) xs = xs"
  by (induction xs) auto

lemma map_other_ids: "f c \<notin> f ` set xs \<Longrightarrow> map (\<lambda>x. if f x = f c then g x else x) xs = xs"
  by (induction xs) auto

lemma delete_chunk_row:
  assumes "distinct (map chunk_id (pre @ c # rest))"
  shows "delete_chunk (chunk_id c) (s\<lparr>memoryChunk := pre @ c # rest\<rparr>)
           = Inr (s\<lparr>memoryChunk := pre @ rest\<rparr>)"
proof -
  have "chunk_id c \<notin> chunk_id ` set pre" "chunk_id c \<notin> chunk_id ` set rest"
    using assms by auto
  then have "filter (\<lambda>x. chunk_id x \<noteq> chunk_id c) (pre @ c # rest) = pre @ rest"
    by (simp add: filter_other_ids)
  then show ?thesis by (simp add: delete_chunk_def has_chunk_def)
qed

lemma update_chunk_row:
  assumes "distinct (map chunk_id (pre @ c # rest))"
  shows "update_chunk (chunk_id c) g (s\<lparr>memoryChunk := pre @ c # rest\<rparr>)
           = Inr (s\<lparr>memoryChunk := pre @ g c # rest\<rparr>)"
proof -
  have "chunk_id c \<notin> chunk_id ` set pre" "chunk_id c \<notin> chunk_id ` set rest"
    using assms by auto
  then have "map (\<lambda>x. if chunk_id x = chunk_id c then g x else x) (pre @ c # rest) = pre @ g c # rest"
    by (simp add: map_other_ids)
  then show ?thesis by (simp add: update_chunk_def has_chunk_def)
qed

lemma decay_loop_rows:
  "distinct (map chunk_id (pre @ rest)) \<Longrightarrow>
   decay_loop clk k rest (s\<lparr>memoryChunk := pre @ rest\<rparr>, n) =
     Inr (s\<lparr>memoryChunk := pre @ List.map_filter (decay_row clk) (enumerate k rest)\<rparr>,
          \<lparr>processed = processed n + length rest,
           decayed = decayed n + length (filter (is_decayed clk) (enumerate k rest)),
           deleted = deleted n + length (filter (is_deleted clk) (enumerate k rest))\<rparr>)"
proof (induction rest arbitrary: pre k n)
  case Nil
  then show ?case by (simp add: map_filter_simps)
next
  case (Cons c rest)
  consider (del) "newScore (clk k) c < 0.05"
    | (upd) "\<not> newScore (clk k) c < 0.05" "newScore (clk k) c \<noteq> score c"
    | (same) "\<not> newScore (clk k) c < 0.05" "newScore (clk k) c = score c"
    by blast
  then show ?case
  proof cases
    case del
    have d: "distinct (map chunk_id (pre @ rest))" using Cons.prems by simp
    show ?thesis
      using del delete_chunk_row [OF Cons.prems, of s] Cons.IH [OF d]
      by (simp add: map_filter_simps decay_row_def is_deleted_def is_decayed_def)
  next
    case upd
    let ?c' = "c\<lparr>score := newScore (clk k) c\<rparr>"
    have d: "distinct (map chunk_id ((pre @ [?c']) @ rest))" using Cons.prems by simp
    show ?thesis
      using upd update_chunk_row [OF Cons.prems, of "\<lambda>r. r\<lparr>score := newScore (clk k) c\<rparr>" s]
        Cons.IH [OF d]
      by (simp add: map_filter_simps decay_row_def is_deleted_def is_decayed_def)
  next
    case same
    have d: "distinct (map chunk_id ((pre @ [c]) @ rest))" using Cons.prems by simp
    have "c\<lparr>score := score c\<rparr> = c" by simp
    then show ?thesis
      using same Cons.IH [OF d]
      by (simp add: map_filter_simps decay_row_def is_deleted_def is_decayed_def)
  qed
qed

lemma applyMemoryDecay_rows:
  assumes "distinct (map chunk_id (memoryChunk s))"
  shows "applyMemoryDecay clk s =
     Inr (s\<lparr>memoryChunk := List.map_filter (decay_row clk) (enumerate 0 (memoryChunk s))\<rparr>,
          \<lparr>processed = length (memoryChunk s),
           decayed = length (filter (is_decayed clk) (enumerate 0 (memoryChunk s))),
           deleted = length (filter (is_deleted clk) (enumerate 0 (memoryChunk s)))\<rparr>)"
  using decay_loop_rows [of "[]" "memoryChunk s" clk 0 s "\<lparr>processed = 0, decayed = 0, deleted = 0\<rparr>"] assms
  by (simp add: applyMemoryDecay_def)

lemma enumerate_as_map: "enumerate 0 cs = map (\<lambda>k. (k, cs ! k)) [0 ..< length cs]"
proof -
  have "enumerate 0 cs = zip [0 ..< length cs] (map (\<lambda>k. cs ! k) [0 ..< length cs])"
    by (simp add: enumerate_eq_zip map_nth)
  also have "\<dots> = map (\<lambda>k. (k, cs ! k)) [0 ..< length cs]"
    by (simp add: zip_map2 zip_same_conv_map)
  finally show ?thesis .
qed

lemma count_enumerate:
  "length (filter P (enumerate 0 cs)) = length (filter (\<lambda>k. P (k, cs ! k)) [0 ..< length cs])"
  by (simp add: enumerate_as_map filter_map o_def)

lemma decay_rows_iff:
  "c' \<in> set (List.map_filter (decay_row clk) (enumerate 0 cs)) \<longleftrightarrow>
     (\<exists>k < length cs. decay_row clk (k, cs ! k) = Some c')"
  by (auto simp: map_filter_def in_set_enumerate_eq image_iff)

lemma decay_row_Some:
  "decay_row clk (k, c) = Some c' \<longleftrightarrow>
     \<not> newScore (clk k) c < 0.05 \<and> c' = c\<lparr>score := newScore (clk k) c\<rparr>"
  by (auto simp: decay_row_def)

lemma newScore_formula:
  "newScore now c = score c * decayRate c powr (real_of_int (now - lastAccessed c) / 3600000)"
  by (simp add: newScore_def Math_pow_def)

lemma decay_deleted_gone:
  assumes ids: "distinct (map chunk_id cs)" and k: "k < length cs"
      and del: "newScore (clk k) (cs ! k) < 0.05"
  shows "chunk_id (cs ! k) \<notin> chunk_id ` set (List.map_filter (decay_row clk) (enumerate 0 cs))"
proof
  assume "chunk_id (cs ! k) \<in> chunk_id ` set (List.map_filter (decay_row clk) (enumerate 0 cs))"
  then obtain c' where c': "c' \<in> set (List.map_filter (decay_row clk) (enumerate 0 cs))"
      "chunk_id c' = chunk_id (cs ! k)" by auto
  then obtain j where j: "j < length cs" "decay_row clk (j, cs ! j) = Some c'"
    by (auto simp: decay_rows_iff)
  then have alive: "\<not> newScore (clk j) (cs ! j) < 0.05" and "chunk_id c' = chunk_id (cs ! j)"
    by (auto simp: decay_row_Some)
  then have "map chunk_id cs ! j = map chunk_id cs ! k" using c' j k by simp
  moreover have "j < length (map chunk_id cs)" "k < length (map chunk_id cs)"
    using j k by simp_all
  ultimately have "j = k" using ids by (simp only: nth_eq_iff_index_eq)
  then show False using alive del by simp
qed

lemma decay_kept_stays:
  assumes "k < length cs" and "\<not> newScore (clk k) (cs ! k) < 0.05"
  shows "(cs ! k)\<lparr>score := newScore (clk k) (cs ! k)\<rparr>
           \<in> set (List.map_filter (decay_row clk) (enumerate 0 cs))"
  using assms by (auto simp: decay_rows_iff decay_row_Some)

lemma decay_rows_ids:
  "map chunk_id (List.map_filter (decay_row clk) (enumerate k cs))
     = map (chunk_id \<circ> snd) (filter (\<lambda>kc. \<not> is_deleted clk kc) (enumerate k cs))"
  by (induction cs arbitrary: k) (simp_all add: decay_row_def is_deleted_def)

lemma decay_rows_distinct:
  assumes "distinct (map chunk_id cs)"
  shows "distinct (map chunk_id (List.map_filter (decay_row clk) (enumerate k cs)))"
proof -
  have "map (chunk_id \<circ> snd) (enumerate k cs) = map chunk_id cs"
    by (simp add: map_map [symmetric] del: map_map)
  then have "distinct (map (chunk_id \<circ> snd) (enumerate k cs))" using assms by simp
  then show ?thesis unfolding decay_rows_ids by (rule distinct_map_filter)
qed

text \<open>
  Claim C1. On a chunk table with distinct identifiers and positive decay rates,
  \<open>applyMemoryDecay\<close> returns, and for the chunk read in iteration \<open>k\<close>, with
  \<open>elapsedHours\<close> the time from its \<open>lastAccessed\<close> to the clock of that iteration and
  \<open>new = score * decayRate ^ elapsedHours\<close>: if \<open>new < 0.05\<close> no row of the new table has
  its identifier; otherwise the row is there with the score \<open>new\<close> and every other field,
  \<open>lastAccessed\<close> among them, as before. Every row of the new table is an old row with
  at most its score changed. The counts are the number of rows read, of rows kept with a
  changed score, and of rows deleted.
\<close>

theorem applyMemoryDecay_effect:
  assumes ids: "distinct (map chunk_id (memoryChunk s))"
      and rates: "\<forall>c \<in> set (memoryChunk s). 0 < decayRate c"
  shows "\<exists>s' n. applyMemoryDecay clk s = Inr (s', n) \<and>
     (\<forall>k < length (memoryChunk s).
        let c = memoryChunk s ! k;
            elapsedHours = real_of_int (clk k - lastAccessed c) / 3600000;
            new = score c * decayRate c powr elapsedHours
        in (new < 0.05 \<longrightarrow> chunk_id c \<notin> chunk_id ` set (memoryChunk s')) \<and>
           (\<not> new < 0.05 \<longrightarrow> c\<lparr>score := new\<rparr> \<in> set (memoryChunk s'))) \<and>
     (\<forall>c' \<in> set (memoryChunk s'). \<exists>c \<in> set (memoryChunk s). c' = c\<lparr>score := score c'\<rparr>) \<and>
     memoryChunk s' = List.map_filter (decay_row clk) (enumerate 0 (memoryChunk s)) \<and>
     memoryBucket s' = memoryBucket s \<and> memoryLink s' = memoryLink s \<and>
     processed n = length (memoryChunk s) \<and>
     deleted n = length (filter (\<lambda>k. newScore (clk k) (memoryChunk s ! k) < 0.05)
                           [0 ..< length (memoryChunk s)]) \<and>
     decayed n = length (filter (\<lambda>k. \<not> newScore (clk k) (memoryChunk s ! k) < 0.05 \<and>
                                      newScore (clk k) (memoryChunk s ! k) \<noteq> score (memoryChunk s ! k))
                           [0 ..< length (memoryChunk s)])"
proof -
  define cs where "cs = memoryChunk s"
  define rows where "rows = List.map_filter (decay_row clk) (enumerate 0 cs)"
  define s' where "s' = s\<lparr>memoryChunk := rows\<rparr>"
  define n where "n = \<lparr>processed = length cs,
                        decayed = length (filter (is_decayed clk) (enumerate 0 cs)),
                        deleted = length (filter (is_deleted clk) (enumerate 0 cs))\<rparr>"
  have run: "applyMemoryDecay clk s = Inr (s', n)"
    using applyMemoryDecay_rows [OF ids, of clk] by (simp add: s'_def n_def rows_def cs_def)
  have pointwise: "\<forall>k < length cs.
        let c = cs ! k;
            elapsedHours = real_of_int (clk k - lastAccessed c) / 3600000;
            new = score c * decayRate c powr elapsedHours
        in (new < 0.05 \<longrightarrow> chunk_id c \<notin> chunk_id ` set rows) \<and>
           (\<not> new < 0.05 \<longrightarrow> c\<lparr>score := new\<rparr> \<in> set rows)"
  proof (intro allI impI)
    fix k assume k: "k < length cs"
    have gone: "chunk_id (cs ! k) \<notin> chunk_id ` set rows" if "newScore (clk k) (cs ! k) < 0.05"
      unfolding rows_def using ids k that by (intro decay_deleted_gone) (simp_all add: cs_def)
    have stays: "(cs ! k)\<lparr>score := newScore (clk k) (cs ! k)\<rparr> \<in> set rows"
      if "\<not> newScore (clk k) (cs ! k) < 0.05"
      unfolding rows_def using k that by (intro decay_kept_stays)
    show "let c = cs ! k;
            elapsedHours = real_of_int (clk k - lastAccessed c) / 3600000;
            new = score c * decayRate c powr elapsedHours
        in (new < 0.05 \<longrightarrow> chunk_id c \<notin> chunk_id ` set rows) \<and>
           (\<not> new < 0.05 \<longrightarrow> c\<lparr>score := new\<rparr> \<in> set rows)"
      using gone stays by (simp add: Let_def newScore_formula)
  qed
  have origin: "\<forall>c' \<in> set rows. \<exists>c \<in> set cs. c' = c\<lparr>score := score c'\<rparr>"
  proof
    fix c' assume "c' \<in> set rows"
    then obtain k where k: "k < length cs" "c' = (cs ! k)\<lparr>score := newScore (clk k) (cs ! k)\<rparr>"
      by (auto simp: rows_def decay_rows_iff decay_row_Some)
    then have "cs ! k \<in> set cs" "c' = (cs ! k)\<lparr>score := score c'\<rparr>" by simp_all
    then show "\<exists>c \<in> set cs. c' = c\<lparr>score := score c'\<rparr>" by blast
  qed
  have counts: "processed n = length cs"
    "deleted n = length (filter (\<lambda>k. newScore (clk k) (cs ! k) < 0.05) [0 ..< length cs])"
    "decayed n = length (filter (\<lambda>k. \<not> newScore (clk k) (cs ! k) < 0.05 \<and>
                                      newScore (clk k) (cs ! k) \<noteq> score (cs ! k)) [0 ..< length cs])"
    by (simp_all add: n_def count_enumerate is_deleted_def is_decayed_def)
  show ?thesis
    using run pointwise origin counts
    unfolding cs_def [symmetric]
    by (intro exI [of _ s'] exI [of _ n]) (simp add: s'_def rows_def)
qed

lemma decay_100h_powr: "(99 / 100 :: real) powr 100 = decay_100h"
  by (simp add: decay_100h_def)

lemma decay_100h_bounds: "9 / 25 < decay_100h" "decay_100h < 37 / 100"
  by (simp_all add: decay_100h_def power_divide)

lemma decay_100h_twice: "2 / 25 < decay_100h * decay_100h" "decay_100h * decay_100h < 7 / 50"
proof -
  have "(9 / 25) * (9 / 25) < decay_100h * decay_100h"
    using decay_100h_bounds by (intro mult_strict_mono) simp_all
  then show "2 / 25 < decay_100h * decay_100h" by simp
  have "decay_100h * decay_100h < (37 / 100) * (37 / 100)"
    using decay_100h_bounds by (intro mult_strict_mono) simp_all
  then show "decay_100h * decay_100h < 7 / 50" by simp
qed

lemma decay_100h_tests:
  "\<not> decay_100h < 0.05" "decay_100h \<noteq> 1"
  "\<not> decay_100h * decay_100h < 0.05" "decay_100h * decay_100h \<noteq> decay_100h"
  using decay_100h_bounds decay_100h_twice by simp_all

lemma ex_run1:
  "applyMemoryDecay (fixed_clock 360000000) ex_decay_store
     = Inr (ex_decay_store\<lparr>memoryChunk := [ex_chunk ''d1'' ''alpha'' [] decay_100h 0,
                                             ex_chunk ''d3'' ''gamma'' [] 1 360000000]\<rparr>,
            \<lparr>processed = 3, decayed = 1, deleted = 1\<rparr>)"
  using decay_100h_tests
  by (simp add: applyMemoryDecay_def ex_decay_store_def ex_chunk_def ex_bucket_def fixed_clock_def
      newScore_def Math_pow_def delete_chunk_def update_chunk_def has_chunk_def decay_100h_powr
      del: powr_numeral)

lemma ex_run2:
  "applyMemoryDecay (fixed_clock 360000000)
      (ex_decay_store\<lparr>memoryChunk := [ex_chunk ''d1'' ''alpha'' [] decay_100h 0,
                                       ex_chunk ''d3'' ''gamma'' [] 1 360000000]\<rparr>)
     = Inr (ex_decay_store\<lparr>memoryChunk := [ex_chunk ''d1'' ''alpha'' [] (decay_100h * decay_100h) 0,
                                             ex_chunk ''d3'' ''gamma'' [] 1 360000000]\<rparr>,
            \<lparr>processed = 2, decayed = 1, deleted = 0\<rparr>)"
  using decay_100h_tests
  by (simp add: applyMemoryDecay_def ex_decay_store_def ex_chunk_def ex_bucket_def fixed_clock_def
      newScore_def Math_pow_def delete_chunk_def update_chunk_def has_chunk_def decay_100h_powr
      del: powr_numeral)

lemma ex_decay_store_ok:
  "distinct (map chunk_id (memoryChunk ex_decay_store))"
  "\<forall>c \<in> set (memoryChunk ex_decay_store). 0 < decayRate c"
  by (simp_all add: ex_decay_store_def ex_chunk_def)

theorem applyMemoryDecay_effect_witness:
  "distinct (map chunk_id (memoryChunk ex_decay_store)) \<and>
   map decayRate (memoryChunk ex_decay_store) = [0.990, 0.990, 0.990] \<and>
   (\<exists>s' n. applyMemoryDecay (fixed_clock 360000000) ex_decay_store = Inr (s', n) \<and>
      processed n = 3 \<and>
      memoryChunk s' = List.map_filter (decay_row (fixed_clock 360000000))
                         (enumerate 0 (memoryChunk ex_decay_store)))"
proof -
  obtain s' n where
    "applyMemoryDecay (fixed_clock 360000000) ex_decay_store = Inr (s', n)"
    "processed n = length (memoryChunk ex_decay_store)"
    "memoryChunk s' = List.map_filter (decay_row (fixed_clock 360000000))
                         (enumerate 0 (memoryChunk ex_decay_store))"
    using applyMemoryDecay_effect [OF ex_decay_store_ok, of "fixed_clock 360000000"] by blast
  moreover have "length (memoryChunk ex_decay_store) = 3" by (simp add: ex_decay_store_def)
  moreover have "map decayRate (memoryChunk ex_decay_store) = [0.990, 0.990, 0.990]"
    by (simp add: ex_decay_store_def ex_chunk_def)
  ultimately show ?thesis using ex_decay_store_ok(1) by simp
qed

lemma newScore_rescored:
  "newScore t (c\<lparr>score := x\<rparr>) = x * decayRate c powr (real_of_int (t - lastAccessed c) / 3600000)"
  by (simp add: newScore_formula)

text \<open>
  Claim C2, as the code has it. Decay measures the elapsed time from \<open>lastAccessed\<close>,
  which it never moves, so a second run at the same time applies the same factor
  \<open>decayRate ^ elapsedHours\<close> again: a chunk that survived the first run with
  \<open>score * factor\<close> has \<open>score * factor * factor\<close> after the second, or is deleted if that
  is under \<open>0.05\<close>. The second run changes nothing only when the factor is 1, as it is
  for a chunk accessed at the very time of the runs.
\<close>

theorem applyMemoryDecay_twice:
  assumes ids: "distinct (map chunk_id (memoryChunk s))"
      and rates: "\<forall>c \<in> set (memoryChunk s). 0 < decayRate c"
      and c: "c \<in> set (memoryChunk s)"
      and alive: "\<not> newScore t c < 0.05"
  shows "\<exists>s1 n1 s2 n2.
      applyMemoryDecay (fixed_clock t) s = Inr (s1, n1) \<and>
      applyMemoryDecay (fixed_clock t) s1 = Inr (s2, n2) \<and>
      (let factor = decayRate c powr (real_of_int (t - lastAccessed c) / 3600000) in
         c\<lparr>score := score c * factor\<rparr> \<in> set (memoryChunk s1) \<and>
         (score c * factor * factor < 0.05 \<longrightarrow> chunk_id c \<notin> chunk_id ` set (memoryChunk s2)) \<and>
         (\<not> score c * factor * factor < 0.05 \<longrightarrow>
            c\<lparr>score := score c * factor * factor\<rparr> \<in> set (memoryChunk s2)) \<and>
         (lastAccessed c = t \<longrightarrow> factor = 1))"
proof -
  let ?clk = "fixed_clock t"
  define factor where "factor = decayRate c powr (real_of_int (t - lastAccessed c) / 3600000)"
  define rows1 where "rows1 = List.map_filter (decay_row ?clk) (enumerate 0 (memoryChunk s))"
  define rows2 where "rows2 = List.map_filter (decay_row ?clk) (enumerate 0 rows1)"
  define c1 where "c1 = c\<lparr>score := score c * factor\<rparr>"
  have ns: "newScore t c = score c * factor" by (simp add: newScore_formula factor_def)
  have ns1: "newScore t c1 = score c * factor * factor"
    by (simp add: c1_def newScore_rescored factor_def)
  obtain n1 where run1: "applyMemoryDecay ?clk s = Inr (s\<lparr>memoryChunk := rows1\<rparr>, n1)"
    using applyMemoryDecay_rows [OF ids, of ?clk] by (simp add: rows1_def)
  have ids1: "distinct (map chunk_id (memoryChunk (s\<lparr>memoryChunk := rows1\<rparr>)))"
    using ids by (simp add: rows1_def decay_rows_distinct)
  obtain n2 where run2: "applyMemoryDecay ?clk (s\<lparr>memoryChunk := rows1\<rparr>)
                           = Inr (s\<lparr>memoryChunk := rows2\<rparr>, n2)"
    using applyMemoryDecay_rows [OF ids1, of ?clk] by (simp add: rows2_def)
  obtain k where k: "k < length (memoryChunk s)" "memoryChunk s ! k = c"
    using c by (auto simp: in_set_conv_nth)
  have in1: "c1 \<in> set rows1"
    using decay_kept_stays [of k "memoryChunk s" ?clk] k alive
    by (simp add: rows1_def c1_def ns fixed_clock_def)
  then obtain j where j: "j < length rows1" "rows1 ! j = c1"
    by (auto simp: in_set_conv_nth)
  have gone: "chunk_id c \<notin> chunk_id ` set rows2" if "score c * factor * factor < 0.05"
  proof -
    have "distinct (map chunk_id rows1)" using ids1 by simp
    moreover have "newScore (?clk j) (rows1 ! j) < 0.05"
      using that j by (simp add: fixed_clock_def ns1)
    ultimately have "chunk_id (rows1 ! j) \<notin> chunk_id ` set rows2"
      unfolding rows2_def using j(1) by (intro decay_deleted_gone)
    then show ?thesis using j by (simp add: c1_def)
  qed
  have stays: "c\<lparr>score := score c * factor * factor\<rparr> \<in> set rows2"
    if "\<not> score c * factor * factor < 0.05"
  proof -
    have "\<not> newScore (?clk j) (rows1 ! j) < 0.05"
      using that j by (simp add: fixed_clock_def ns1)
    then have "(rows1 ! j)\<lparr>score := newScore (?clk j) (rows1 ! j)\<rparr> \<in> set rows2"
      unfolding rows2_def using j(1) by (intro decay_kept_stays)
    then show ?thesis using j by (simp add: fixed_clock_def ns1) (simp add: c1_def)
  qed
  have still: "factor = 1" if "lastAccessed c = t"
  proof -
    have "0 < decayRate c" using rates c by blast
    then show ?thesis using that by (simp add: factor_def)
  qed
  show ?thesis
    using run1 run2 in1 gone stays still
    unfolding factor_def [symmetric] Let_def c1_def
    by (intro exI [of _ "s\<lparr>memoryChunk := rows1\<rparr>"] exI [of _ n1]
              exI [of _ "s\<lparr>memoryChunk := rows2\<rparr>"] exI [of _ n2]) simp
qed

theorem applyMemoryDecay_twice_witness:
  "distinct (map chunk_id (memoryChunk ex_decay_store)) \<and>
   map decayRate (memoryChunk ex_decay_store) = [0.990, 0.990, 0.990] \<and>
   ex_chunk ''d1'' ''alpha'' [] 1 0 \<in> set (memoryChunk ex_decay_store) \<and>
   \<not> newScore 360000000 (ex_chunk ''d1'' ''alpha'' [] 1 0) < 0.05 \<and>
   (\<exists>s1 n1 s2 n2.
      applyMemoryDecay (fixed_clock 360000000) ex_decay_store = Inr (s1, n1) \<and>
      applyMemoryDecay (fixed_clock 360000000) s1 = Inr (s2, n2))"
proof -
  have c: "ex_chunk ''d1'' ''alpha'' [] 1 0 \<in> set (memoryChunk ex_decay_store)"
    by (simp add: ex_decay_store_def)
  have alive: "\<not> newScore 360000000 (ex_chunk ''d1'' ''alpha'' [] 1 0) < 0.05"
    using decay_100h_tests
    by (simp add: newScore_def Math_pow_def ex_chunk_def decay_100h_powr del: powr_numeral)
  have rates: "map decayRate (memoryChunk ex_decay_store) = [0.990, 0.990, 0.990]"
    by (simp add: ex_decay_store_def ex_chunk_def)
  obtain s1 n1 s2 n2 where
    "applyMemoryDecay (fixed_clock 360000000) ex_decay_store = Inr (s1, n1)"
    "applyMemoryDecay (fixed_clock 360000000) s1 = Inr (s2, n2)"
    using applyMemoryDecay_twice [OF ex_decay_store_ok c alive] by blast
  then show ?thesis using ex_decay_store_ok(1) rates c alive by blast
qed

text \<open>
  The claim as written fails: a chunk of score 1 and rate \<open>0.990\<close>, last accessed 100
  hours ago, has a score above \<open>0.36\<close> after the first run and under \<open>0.14\<close> after a
  second run at the same time.
\<close>

theorem applyMemoryDecay_twice_counterexample:
  "applyMemoryDecay (fixed_clock 360000000) ex_decay_store
     = Inr (ex_decay_store\<lparr>memoryChunk := [ex_chunk ''d1'' ''alpha'' [] decay_100h 0,
                                             ex_chunk ''d3'' ''gamma'' [] 1 360000000]\<rparr>,
            \<lparr>processed = 3, decayed = 1, deleted = 1\<rparr>) \<and>
   applyMemoryDecay (fixed_clock 360000000)
      (ex_decay_store\<lparr>memoryChunk := [ex_chunk ''d1'' ''alpha'' [] decay_100h 0,
                                       ex_chunk ''d3'' ''gamma'' [] 1 360000000]\<rparr>)
     = Inr (ex_decay_store\<lparr>memoryChunk := [ex_chunk ''d1'' ''alpha'' [] (decay_100h * decay_100h) 0,
                                             ex_chunk ''d3'' ''gamma'' [] 1 360000000]\<rparr>,
            \<lparr>processed = 2, decayed = 1, deleted = 0\<rparr>) \<and>
   9 / 25 < decay_100h \<and> decay_100h * decay_100h < 7 / 50"
  using ex_run1 ex_run2 decay_100h_bounds(1) decay_100h_twice(2) by simp

section \<open>The score invariant\<close>

lemma decay_rate_of_range: "0 < decay_rate_of t \<and> decay_rate_of t < 1"
  by (simp add: decay_rate_of_def)

lemma addMemoryChunk_keeps:
  assumes "addMemoryChunk new_id now s bucketName txt emb mv src agent = Inr (chunk, s')"
      and "distinct (map chunk_id (memoryChunk s))" and "score_invariant s"
  shows "distinct (map chunk_id (memoryChunk s')) \<and> score_invariant s'"
proof -
  obtain b where b: "findUnique_bucket s bucketName = Some b"
    using assms(1) by (auto simp: addMemoryChunk_def split: option.splits)
  have fresh: "\<not> has_chunk s new_id"
    using assms(1) b by (auto simp: addMemoryChunk_def create_chunk_def Let_def split: if_splits)
  have rows: "memoryChunk s' = memoryChunk s @ [chunk]" and
       new: "chunk_id chunk = new_id" "score chunk = 1" "decayRate chunk = decay_rate_of (bucketType b)"
    using assms(1) b fresh by (auto simp: addMemoryChunk_def create_chunk_def Let_def)
  show ?thesis
    using assms(2,3) fresh decay_rate_of_range [of "bucketType b"]
    by (auto simp: rows new score_invariant_def has_chunk_def)
qed

lemma boostMemory_rows:
  assumes "boostMemory now s chunkId boost = Inr s'"
  shows "memoryChunk s' =
           map (\<lambda>c. if chunk_id c = chunkId
                    then c\<lparr>score := score c + boost, lastAccessed := now,
                           accessCount := accessCount c + 1\<rparr>
                    else c) (memoryChunk s)"
  using assms by (auto simp: boostMemory_def update_chunk_def split: if_splits)

lemma boostMemory_distinct:
  assumes "boostMemory now s chunkId boost = Inr s'" and "distinct (map chunk_id (memoryChunk s))"
  shows "distinct (map chunk_id (memoryChunk s'))"
proof -
  have "map chunk_id (memoryChunk s') = map chunk_id (memoryChunk s)"
    unfolding boostMemory_rows [OF assms(1)] by (simp add: o_def if_distrib [of chunk_id])
  then show ?thesis using assms(2) by simp
qed

lemma boostMemory_keeps:
  assumes "boostMemory now s chunkId boost = Inr s'" and "score_invariant s" and "0 \<le> boost"
  shows "score_invariant s'"
  using assms(2,3) unfolding score_invariant_def boostMemory_rows [OF assms(1)] by auto

lemma decay_rows_floor:
  "c' \<in> set (List.map_filter (decay_row clk) (enumerate 0 cs)) \<Longrightarrow> 0.05 \<le> score c'"
  by (auto simp: decay_rows_iff decay_row_Some)

lemma decay_rows_rate:
  "c' \<in> set (List.map_filter (decay_row clk) (enumerate 0 cs)) \<Longrightarrow>
   \<exists>c \<in> set cs. decayRate c' = decayRate c"
  by (auto simp: decay_rows_iff decay_row_Some)

lemma applyMemoryDecay_keeps:
  assumes "applyMemoryDecay clk s = Inr (s', n)" and "distinct (map chunk_id (memoryChunk s))"
  shows "distinct (map chunk_id (memoryChunk s'))"
    and "\<forall>c \<in> set (memoryChunk s'). 0.05 \<le> score c"
    and "score_invariant s \<Longrightarrow> score_invariant s'"
proof -
  have rows: "memoryChunk s' = List.map_filter (decay_row clk) (enumerate 0 (memoryChunk s))"
    using assms(1) applyMemoryDecay_rows [OF assms(2), of clk] by auto
  show "distinct (map chunk_id (memoryChunk s'))"
    unfolding rows using assms(2) by (rule decay_rows_distinct)
  show floor: "\<forall>c \<in> set (memoryChunk s'). 0.05 \<le> score c"
    unfolding rows using decay_rows_floor by blast
  show "score_invariant s'" if "score_invariant s"
    unfolding score_invariant_def
  proof
    fix c' assume c': "c' \<in> set (memoryChunk s')"
    then obtain c where "c \<in> set (memoryChunk s)" "decayRate c' = decayRate c"
      unfolding rows using decay_rows_rate by blast
    moreover have "0.05 \<le> score c'" using floor c' by blast
    ultimately show "0 \<le> score c' \<and> 0 < decayRate c' \<and> decayRate c' < 1"
      using that by (auto simp: score_invariant_def)
  qed
qed

lemma run_operation_distinct:
  assumes "distinct (map chunk_id (memoryChunk s))"
  shows "distinct (map chunk_id (memoryChunk (run_operation op s)))"
proof (cases op)
  case (AddChunk new_id now bucketName tx emb mv src agent)
  show ?thesis
  proof (cases "addMemoryChunk new_id now s bucketName tx emb mv src agent")
    case (Inl e)
    then show ?thesis using assms AddChunk by simp
  next
    case (Inr r)
    obtain chunk s' where r: "r = (chunk, s')" by (cases r)
    have "addMemoryChunk new_id now s bucketName tx emb mv src agent = Inr (chunk, s')"
      using Inr r by simp
    then have "new_id \<notin> chunk_id ` set (memoryChunk s) \<and> memoryChunk s' = memoryChunk s @ [chunk]
               \<and> chunk_id chunk = new_id"
      by (auto simp: addMemoryChunk_def create_chunk_def has_chunk_def Let_def
               split: option.splits if_splits)
    then show ?thesis using assms AddChunk Inr r by auto
  qed
next
  case (Boost now chunkId boost)
  then show ?thesis using assms boostMemory_distinct [of now s chunkId boost]
    by (auto split: sum.splits)
next
  case (ApplyDecay clk)
  then show ?thesis using assms applyMemoryDecay_keeps(1) [of clk s]
    by (auto split: sum.splits)
qed

lemma run_operation_keeps:
  assumes "distinct (map chunk_id (memoryChunk s))" and "score_invariant s" and "nonneg_boost op"
  shows "score_invariant (run_operation op s)"
proof (cases op)
  case (AddChunk new_id now bucketName tx emb mv src agent)
  then show ?thesis
    using assms addMemoryChunk_keeps [of new_id now s bucketName tx emb mv src agent]
    by (auto split: sum.splits)
next
  case (Boost now chunkId boost)
  then show ?thesis using assms boostMemory_keeps [of now s chunkId boost]
    by (auto split: sum.splits)
next
  case (ApplyDecay clk)
  then show ?thesis using assms applyMemoryDecay_keeps(3) [of clk s]
    by (auto split: sum.splits)
qed

lemma run_operations_distinct:
  "distinct (map chunk_id (memoryChunk s)) \<Longrightarrow>
   distinct (map chunk_id (memoryChunk (run_operations ops s)))"
  unfolding run_operations_def
  by (induction ops arbitrary: s) (simp_all add: run_operation_distinct)

lemma run_operations_keeps:
  "distinct (map chunk_id (memoryChunk s)) \<Longrightarrow> score_invariant s \<Longrightarrow>
   \<forall>op \<in> set ops. nonneg_boost op \<Longrightarrow> score_invariant (run_operations ops s)"
  unfolding run_operations_def
  by (induction ops arbitrary: s) (simp_all add: run_operation_distinct run_operation_keeps)

lemma run_operations_append:
  "run_operations (ops @ [op]) s = run_operation op (run_operations ops s)"
  by (simp add: run_operations_def)

text \<open>
  Claim C8, as the code has it. From a chunk table with distinct identifiers that
  satisfies the invariant, every sequence of \<open>addChunk\<close>, \<open>boost\<close> and \<open>applyDecay\<close> calls
  in which no boost amount is negative leaves every stored chunk with \<open>score \<ge> 0\<close> and
  \<open>decayRate\<close> strictly between 0 and 1. For boosts of any amount, every chunk that is in
  the store right after an \<open>applyDecay\<close> has \<open>score \<ge> 0.05\<close>.
\<close>

theorem scores_stay_nonnegative:
  assumes "distinct (map chunk_id (memoryChunk s))"
  shows "(score_invariant s \<and> (\<forall>op \<in> set ops. nonneg_boost op) \<longrightarrow>
            (\<forall>c \<in> set (memoryChunk (run_operations ops s)).
               0 \<le> score c \<and> 0 < decayRate c \<and> decayRate c < 1)) \<and>
         (\<forall>c \<in> set (memoryChunk (run_operations (ops @ [ApplyDecay clk]) s)). 0.05 \<le> score c)"
proof (intro conjI impI)
  assume "score_invariant s \<and> (\<forall>op \<in> set ops. nonneg_boost op)"
  then have "score_invariant (run_operations ops s)"
    using assms by (simp add: run_operations_keeps)
  then show "\<forall>c \<in> set (memoryChunk (run_operations ops s)).
               0 \<le> score c \<and> 0 < decayRate c \<and> decayRate c < 1"
    by (simp add: score_invariant_def)
next
  have d: "distinct (map chunk_id (memoryChunk (run_operations ops s)))"
    using assms by (rule run_operations_distinct)
  obtain s' n where "applyMemoryDecay clk (run_operations ops s) = Inr (s', n)"
    using applyMemoryDecay_rows [OF d, of clk] by blast
  then show "\<forall>c \<in> set (memoryChunk (run_operations (ops @ [ApplyDecay clk]) s)). 0.05 \<le> score c"
    using applyMemoryDecay_keeps(2) [OF _ d, of clk s' n] by (simp add: run_operations_append)
qed

lemma ex_add_boost:
  "memoryChunk (run_operations
      [AddChunk ''c1'' 1000 ''semantic_stm'' ''alpha'' [1, 0] [] ''chat'' None, Boost 2000 ''c1'' b]
      ex_empty_store)
     = [(ex_chunk ''c1'' ''alpha'' [1, 0] (1 + b) 2000)\<lparr>timestamp := 1000, accessCount := 1\<rparr>]"
  by (simp add: run_operations_def addMemoryChunk_def boostMemory_def create_chunk_def
      update_chunk_def has_chunk_def findUnique_bucket_def ex_empty_store_def ex_bucket_def
      ex_chunk_def decay_rate_of_def Let_def)

theorem scores_stay_nonnegative_witness:
  "distinct (map chunk_id (memoryChunk ex_empty_store)) \<and> score_invariant ex_empty_store \<and>
   list_all nonneg_boost
     [AddChunk ''c1'' 1000 ''semantic_stm'' ''alpha'' [1, 0] [] ''chat'' None, Boost 2000 ''c1'' 0.1] \<and>
   memoryChunk (run_operations
        [AddChunk ''c1'' 1000 ''semantic_stm'' ''alpha'' [1, 0] [] ''chat'' None, Boost 2000 ''c1'' 0.1]
        ex_empty_store)
     = [(ex_chunk ''c1'' ''alpha'' [1, 0] 1.1 2000)\<lparr>timestamp := 1000, accessCount := 1\<rparr>] \<and>
   score_invariant (run_operations
        [AddChunk ''c1'' 1000 ''semantic_stm'' ''alpha'' [1, 0] [] ''chat'' None, Boost 2000 ''c1'' 0.1]
        ex_empty_store)"
proof -
  let ?ops = "[AddChunk ''c1'' 1000 ''semantic_stm'' ''alpha'' [1, 0] [] ''chat'' None,
               Boost 2000 ''c1'' 0.1]"
  have h1: "distinct (map chunk_id (memoryChunk ex_empty_store))"
    by (simp add: ex_empty_store_def)
  have h2: "score_invariant ex_empty_store \<and> (\<forall>op \<in> set ?ops. nonneg_boost op)"
    by (simp add: ex_empty_store_def score_invariant_def)
  have "\<forall>c \<in> set (memoryChunk (run_operations ?ops ex_empty_store)).
          0 \<le> score c \<and> 0 < decayRate c \<and> decayRate c < 1"
    by (rule scores_stay_nonnegative [OF h1, THEN conjunct1, THEN mp, OF h2])
  then have inv: "score_invariant (run_operations ?ops ex_empty_store)"
    by (simp add: score_invariant_def)
  have rows: "memoryChunk (run_operations ?ops ex_empty_store)
     = [(ex_chunk ''c1'' ''alpha'' [1, 0] 1.1 2000)\<lparr>timestamp := 1000, accessCount := 1\<rparr>]"
    using ex_add_boost [of "0.1"] by (simp add: ex_chunk_def)
  show ?thesis using h1 h2 inv rows by simp
qed

text \<open>
  The claim as written fails for a negative boost: after \<open>addChunk\<close> and a boost by
  \<open>-2\<close> the chunk is in the store with score \<open>-1\<close>.
\<close>

theorem negative_boost_counterexample:
  "map score (memoryChunk (run_operations
      [AddChunk ''c1'' 1000 ''semantic_stm'' ''alpha'' [1, 0] [] ''chat'' None, Boost 2000 ''c1'' (- 2)]
      ex_empty_store)) = [- 1]"
  by (simp add: ex_add_boost ex_chunk_def)

section \<open>Reflection: confidence and failure\<close>

lemma foldl_scores: "foldl (\<lambda>sum m. sum + score m) a ms = a + (\<Sum>m \<leftarrow> ms. score m)"
  by (induction ms arbitrary: a) simp_all

lemma confidence_nonempty:
  assumes "memories \<noteq> []"
  shows "calculateConfidenceScore memories insightList =
           Some (0.3 * min (real (length memories) / 50) 1 +
                 0.3 * min (real (length insightList) / 10) 1 +
                 0.4 * min ((\<Sum>m \<leftarrow> memories. score m) / real (length memories) / 2) 1)"
proof -
  define a where "a = min (real (length memories) / 50) 1"
  define b where "b = min (real (length insightList) / 10) 1"
  define c where "c = min ((\<Sum>m \<leftarrow> memories. score m) / real (length memories) / 2) 1"
  have "a \<le> 1" "b \<le> 1" "c \<le> 1" by (simp_all add: a_def b_def c_def)
  then have le: "a * 0.3 + b * 0.3 + c * 0.4 \<le> 1" by linarith
  have "calculateConfidenceScore memories insightList = Some (min (a * 0.3 + b * 0.3 + c * 0.4) 1)"
    using assms
    by (simp add: calculateConfidenceScore_def js_div_def foldl_scores Let_def a_def b_def c_def)
  also have "min (a * 0.3 + b * 0.3 + c * 0.4) 1 = 0.3 * a + 0.3 * b + 0.4 * c"
    using le by (simp add: min_def)
  finally show ?thesis by (simp add: a_def b_def c_def)
qed

lemma scores_sum_nonneg: "\<forall>m \<in> set ms. 0 \<le> score m \<Longrightarrow> 0 \<le> (\<Sum>m \<leftarrow> ms. score m)"
  by (induction ms) auto

lemma confidence_nonempty_range:
  assumes "memories \<noteq> []" and "\<forall>m \<in> set memories. 0 \<le> score m"
  shows "\<exists>r. calculateConfidenceScore memories insightList = Some r \<and> 0 \<le> r \<and> r \<le> 1"
proof -
  define a where "a = min (real (length memories) / 50) 1"
  define b where "b = min (real (length insightList) / 10) 1"
  define c where "c = min ((\<Sum>m \<leftarrow> memories. score m) / real (length memories) / 2) 1"
  have "0 \<le> (\<Sum>m \<leftarrow> memories. score m)" using assms(2) by (rule scores_sum_nonneg)
  then have "0 \<le> (\<Sum>m \<leftarrow> memories. score m) / real (length memories) / 2" by simp
  then have "0 \<le> a" "a \<le> 1" "0 \<le> b" "b \<le> 1" "0 \<le> c" "c \<le> 1"
    by (simp_all add: a_def b_def c_def)
  then have "0 \<le> 0.3 * a + 0.3 * b + 0.4 * c \<and> 0.3 * a + 0.3 * b + 0.4 * c \<le> 1" by linarith
  then show ?thesis
    unfolding confidence_nonempty [OF assms(1)] a_def b_def c_def by simp
qed

text \<open>
  Claim C9 fails on the empty chunk list: the average is \<open>0 / 0\<close>, so the confidence is
  \<open>NaN\<close> and not a number in \<open>[0, 1]\<close>. A reflection over an empty scope whose phases all
  succeed hands this value to the caller. (On a non-empty list the value is the weighted
  sum of the claim, and it lies in \<open>[0, 1]\<close> when no score is negative: lemmas
  \<open>confidence_nonempty\<close> and \<open>confidence_nonempty_range\<close>.)
\<close>

theorem confidence_empty_is_NaN:
  "calculateConfidenceScore [] insightList = None \<and>
   confidenceScore
     (generateReflection (\<lambda>memories depth areas. Inr insightList) (\<lambda>ins memories. Inr recs)
        (\<lambda>memories ins conductor. Inr ()) lookup clk now s
        \<lparr>triggerType = trigger, memoryScope = [], reflectionDepth = depth, focusAreas = areas\<rparr>
        conductorId) = None"
  by (simp add: calculateConfidenceScore_def js_div_def generateReflection_def
      gatherMemoriesForReflection_def discoverMemoryConnections_def)

text \<open>
  Claim C5. \<open>generateReflection\<close> always returns a result. If the gather phase fails, or
  on the gathered memories the analysis fails, or the discovery of connections fails, or
  the recommendations fail, the result is the fixed one: one placeholder insight, no new
  connection, one placeholder recommendation, confidence 0.
\<close>

theorem generateReflection_degraded:
  assumes "(\<exists>e. gatherMemoriesForReflection clk now s (memoryScope request) = Inl e) \<or>
           (\<exists>memories s'.
              gatherMemoriesForReflection clk now s (memoryScope request) = Inr (memories, s') \<and>
              ((\<exists>e. analyzeMemories memories (reflectionDepth request) (focusAreas request) = Inl e) \<or>
               (\<exists>e. discoverMemoryConnections lookup now memories = Inl e) \<or>
               (\<exists>insightList e.
                  analyzeMemories memories (reflectionDepth request) (focusAreas request)
                    = Inr insightList \<and>
                  generateRecommendations insightList memories = Inl e)))"
  shows "generateReflection analyzeMemories generateRecommendations saveReflections lookup
           clk now s request conductorId = degraded_result \<and>
         insights degraded_result = [''Error generating reflection insights''] \<and>
         newConnections degraded_result = [] \<and>
         recommendations degraded_result = [''Unable to generate recommendations at this time''] \<and>
         confidenceScore degraded_result = Some 0"
proof -
  have "generateReflection analyzeMemories generateRecommendations saveReflections lookup
           clk now s request conductorId = degraded_result"
    using assms by (auto simp: generateReflection_def split: sum.splits)
  then show ?thesis by (simp add: degraded_result_def)
qed

theorem generateReflection_degraded_witness:
  "(\<exists>e. gatherMemoriesForReflection (fixed_clock 5000) 5000 ex_store [''nope''] = Inl e) \<and>
   generateReflection (\<lambda>memories depth areas. Inr []) (\<lambda>ins memories. Inr [])
      (\<lambda>memories ins conductor. Inr ()) (findFirst_link ex_store) (fixed_clock 5000) 5000 ex_store
      \<lparr>triggerType = user_request, memoryScope = [''nope''], reflectionDepth = shallow,
       focusAreas = []\<rparr> ''conductor''
     = degraded_result"
proof -
  have h: "\<exists>e. gatherMemoriesForReflection (fixed_clock 5000) 5000 ex_store [''nope''] = Inl e"
    by (simp add: gatherMemoriesForReflection_def getMemoriesFromBucket_def findUnique_bucket_def
        ex_store_def ex_bucket_def)
  show ?thesis
    using h generateReflection_degraded [of "fixed_clock 5000" 5000 ex_store
        "\<lparr>triggerType = user_request, memoryScope = [''nope''], reflectionDepth = shallow,
          focusAreas = []\<rparr>"
        "\<lambda>memories depth areas. Inr []" "findFirst_link ex_store" "\<lambda>ins memories. Inr []"
        "\<lambda>memories ins conductor. Inr ()" "''conductor''"]
    by simp
qed

text \<open>On registered buckets and distinct identifiers the retrieval calls return.\<close>

lemma getMemories_succeeds:
  assumes "bucketName \<in> bucket_name ` set (memoryBucket s)"
      and "distinct (map chunk_id (memoryChunk s))"
  shows "\<exists>chunks s'.
           getMemoriesFromBucket now s bucketName queryEmbedding limit minScore = Inr (chunks, s') \<and>
           memoryBucket s' = memoryBucket s \<and>
           map chunk_id (memoryChunk s') = map chunk_id (memoryChunk s)"
proof -
  obtain chunks s' where
    r: "getMemoriesFromBucket now s bucketName queryEmbedding limit minScore = Inr (chunks, s')" and
    s': "s' = s\<lparr>memoryChunk :=
                 map (\<lambda>c. if chunk_id c \<in> chunk_id ` fst ` set chunks then touch now c else c)
                   (memoryChunk s)\<rparr>"
    using getMemories_contract [of bucketName s now queryEmbedding limit minScore] assms by blast
  have "map chunk_id (memoryChunk s') = map chunk_id (memoryChunk s)"
    unfolding s' by (simp add: o_def if_distrib [of chunk_id] touch_def)
  moreover have "memoryBucket s' = memoryBucket s" unfolding s' by simp
  ultimately show ?thesis using r by blast
qed



lemma search_loop_succeeds:
  "set buckets \<subseteq> bucket_name ` set (memoryBucket s) \<Longrightarrow>
   distinct (map chunk_id (memoryChunk s)) \<Longrightarrow>
   \<exists>allResults s'. search_loop clk k buckets q perBucket s acc = Inr (allResults, s')"
proof (induction buckets arbitrary: k s acc)
  case Nil
  then show ?case by simp
next
  case (Cons bucket rest)
  obtain results s1 where
    g: "getMemoriesFromBucket (clk k) s bucket (Some q) perBucket 0.1 = Inr (results, s1)" and
    b: "memoryBucket s1 = memoryBucket s" and
    i: "map chunk_id (memoryChunk s1) = map chunk_id (memoryChunk s)"
    using getMemories_succeeds [of bucket s "clk k" "Some q" perBucket "0.1"] Cons.prems by auto
  have "\<exists>allResults s'. search_loop clk (Suc k) rest q perBucket s1 (acc @ results) = Inr (allResults, s')"
    using Cons.prems b i by (intro Cons.IH) simp_all
  then show ?case using g by simp
qed

lemma search_succeeds:
  assumes "set bs \<subseteq> bucket_name ` set (memoryBucket s)"
      and "distinct (map chunk_id (memoryChunk s))"
  shows "\<exists>results s'. searchMemories clk s q (Some bs) limit = Inr (results, s')"
proof -
  obtain allResults s' where
    "search_loop clk 0 bs q (nat \<lceil>real limit / real (length bs)\<rceil>) s [] = Inr (allResults, s')"
    using search_loop_succeeds [OF assms] by blast
  then show ?thesis by (simp add: searchMemories_def)
qed

section \<open>Cross-bucket search\<close>

lemma search_key_cases:
  "search_key (c, sim) = (if sim = None \<or> sim = Some 0 then score c else the sim)"
  by (auto simp: search_key_def js_or_def split: option.splits)

lemma search_sorted:
  assumes "searchMemories clk s q buckets limit = Inr (results, s')"
  shows "sorted_wrt (\<lambda>a b. search_key b \<le> search_key a) results"
proof -
  obtain allResults where "results = take limit (js_sort search_cmp allResults)"
    using assms by (auto simp: searchMemories_def Let_def split: sum.splits)
  moreover have "sorted_wrt (\<lambda>a b. search_key b \<le> search_key a) (js_sort search_cmp allResults)"
    by (rule js_sort_by_key) (simp add: search_cmp_def)
  ultimately show ?thesis by (simp add: sorted_wrt_take)
qed

lemma ex_search:
  "searchMemories (fixed_clock 5000) ex_store [1, 0] (Some [''semantic_stm'']) 20
     = Inr ([(ex_chunk ''c1'' ''alpha'' [0, 1] 2 1000, Some 0),
             (ex_chunk ''c2'' ''beta'' [1, 0] 1 2000, Some 1)],
            ex_store\<lparr>memoryChunk :=
              [touch 5000 (ex_chunk ''c1'' ''alpha'' [0, 1] 2 1000),
               touch 5000 (ex_chunk ''c2'' ''beta'' [1, 0] 1 2000)]\<rparr>)"
  by (simp add: searchMemories_def getMemoriesFromBucket_def ex_store_def ex_bucket_def ex_chunk_def
      findUnique_bucket_def findMany_chunks_def order_by_cmp_def similarity_cmp_def js_or_def
      calculateCosineSimilarity_exact_def js_div_def update_chunk_def has_chunk_def touch_def
      search_cmp_def search_key_def fixed_clock_def)

text \<open>
  Claim C10. The merged result of \<open>searchMemories\<close> is in non-increasing order of a key
  that is the chunk's similarity when that is a non-zero number and the chunk's score
  when the similarity is 0 or absent. In the example store the query \<open>[1, 0]\<close> has
  similarity 1 with chunk \<open>c2\<close> (score 1) and similarity 0 with chunk \<open>c1\<close> (score 2), and
  \<open>c1\<close> is ranked first: its score 2 is compared with the similarity 1 of \<open>c2\<close>. The
  search returns whenever the buckets it is given are registered and the chunk
  identifiers are distinct.
\<close>

theorem searchMemories_ranking:
  "search_cmp a b = search_key b - search_key a \<and>
   search_key (c, sim) = (if sim = None \<or> sim = Some 0 then score c else the sim) \<and>
   (searchMemories clk s q buckets limit = Inr (results, s') \<longrightarrow>
      sorted_wrt (\<lambda>a b. search_key b \<le> search_key a) results) \<and>
   map_sum id fst (searchMemories (fixed_clock 5000) ex_store [1, 0] (Some [''semantic_stm'']) 20)
     = Inr [(ex_chunk ''c1'' ''alpha'' [0, 1] 2 1000, Some 0),
            (ex_chunk ''c2'' ''beta'' [1, 0] 1 2000, Some 1)] \<and>
   (set bs \<subseteq> bucket_name ` set (memoryBucket s) \<and> distinct (map chunk_id (memoryChunk s)) \<longrightarrow>
      (\<exists>found t. searchMemories clk s q (Some bs) limit = Inr (found, t)))"
proof (intro conjI impI)
  show "search_cmp a b = search_key b - search_key a" by (simp add: search_cmp_def)
  show "search_key (c, sim) = (if sim = None \<or> sim = Some 0 then score c else the sim)"
    by (rule search_key_cases)
  show "map_sum id fst (searchMemories (fixed_clock 5000) ex_store [1, 0] (Some [''semantic_stm'']) 20)
     = Inr [(ex_chunk ''c1'' ''alpha'' [0, 1] 2 1000, Some 0),
            (ex_chunk ''c2'' ''beta'' [1, 0] 1 2000, Some 1)]"
    by (simp add: ex_search)
next
  assume "searchMemories clk s q buckets limit = Inr (results, s')"
  then show "sorted_wrt (\<lambda>a b. search_key b \<le> search_key a) results" by (rule search_sorted)
next
  assume "set bs \<subseteq> bucket_name ` set (memoryBucket s) \<and> distinct (map chunk_id (memoryChunk s))"
  then show "\<exists>found t. searchMemories clk s q (Some bs) limit = Inr (found, t)"
    using search_succeeds [of bs s clk q limit] by blast
qed

theorem searchMemories_ranking_witness:
  "searchMemories (fixed_clock 5000) ex_store [1, 0] (Some [''semantic_stm'']) 20
     = Inr ([(ex_chunk ''c1'' ''alpha'' [0, 1] 2 1000, Some 0),
             (ex_chunk ''c2'' ''beta'' [1, 0] 1 2000, Some 1)],
            ex_store\<lparr>memoryChunk :=
              [touch 5000 (ex_chunk ''c1'' ''alpha'' [0, 1] 2 1000),
               touch 5000 (ex_chunk ''c2'' ''beta'' [1, 0] 1 2000)]\<rparr>) \<and>
   sorted_wrt (\<lambda>a b. search_key b \<le> search_key a)
     [(ex_chunk ''c1'' ''alpha'' [0, 1] 2 1000, Some 0),
      (ex_chunk ''c2'' ''beta'' [1, 0] 1 2000, Some 1)] \<and>
   search_key (ex_chunk ''c1'' ''alpha'' [0, 1] 2 1000, Some 0) = 2 \<and>
   search_key (ex_chunk ''c2'' ''beta'' [1, 0] 1 2000, Some 1) = 1"
proof -
  note r = ex_search
  have "sorted_wrt (\<lambda>a b. search_key b \<le> search_key a)
     [(ex_chunk ''c1'' ''alpha'' [0, 1] 2 1000, Some 0),
      (ex_chunk ''c2'' ''beta'' [1, 0] 1 2000, Some 1)]"
    by (rule searchMemories_ranking [THEN conjunct2, THEN conjunct2, THEN conjunct1, THEN mp, OF r])
  moreover have "search_key (ex_chunk ''c1'' ''alpha'' [0, 1] 2 1000, Some 0) = 2"
    "search_key (ex_chunk ''c2'' ''beta'' [1, 0] 1 2000, Some 1) = 1"
    by (simp_all add: search_key_def js_or_def ex_chunk_def)
  ultimately show ?thesis using r by simp
qed

section \<open>Reflection: the gather phase\<close>













section \<open>Reflection: discovery of connections\<close>

lemma new_Set_set [simp]: "set (new_Set xs) = set xs"
  by (simp add: new_Set_def)

lemma new_Set_length [simp]: "length (new_Set xs) = card (set xs)"
  by (simp add: new_Set_def length_remdups_card_conv)

lemma split_loop_nonempty: "split_loop in_gap cur t \<noteq> []"
  by (induction t arbitrary: in_gap cur) simp_all

lemma tokens_nonempty: "tokens t \<noteq> {}"
  by (simp add: tokens_def split_whitespace_def split_loop_nonempty)

lemma text_similarity_jaccard: "calculateTextSimilarity t1 t2 = Some (jaccard t1 t2)"
proof -
  let ?w1 = "new_Set (split_whitespace (toLowerCase t1))"
  let ?w2 = "new_Set (split_whitespace (toLowerCase t2))"
  have "finite (tokens t1 \<union> tokens t2)" by (simp add: tokens_def)
  then have nz: "card (tokens t1 \<union> tokens t2) \<noteq> 0" using tokens_nonempty [of t1] by simp
  have u: "length (new_Set (?w1 @ ?w2)) = card (tokens t1 \<union> tokens t2)"
    by (simp add: tokens_def)
  have "set (filter (\<lambda>x. x \<in> set ?w2) ?w1) = tokens t1 \<inter> tokens t2"
    by (auto simp: tokens_def)
  then have i: "length (new_Set (filter (\<lambda>x. x \<in> set ?w2) ?w1)) = card (tokens t1 \<inter> tokens t2)"
    by (simp only: new_Set_length)
  show ?thesis
    unfolding calculateTextSimilarity_def Let_def u i js_div_def jaccard_def using nz by simp
qed

lemma findFirst_link_None: "findFirst_link s a b = Inr None \<longleftrightarrow> \<not> linked s a b"
  by (auto simp: findFirst_link_def linked_def find_None_iff)

lemma findFirst_link_total: "\<exists>r. findFirst_link s a b = Inr r"
  by (simp add: findFirst_link_def)

lemma discover_inner_candidates:
  "discover_inner (findFirst_link s) now ms i js acc =
     Inr (acc @ map (candidate_of now ms) (filter (qualifies s ms) (map (Pair i) js)))"
proof (induction js arbitrary: acc)
  case Nil
  then show ?case by simp
next
  case (Cons j js)
  obtain r where r: "findFirst_link s (chunk_id (ms ! i)) (chunk_id (ms ! j)) = Inr r"
    using findFirst_link_total by blast
  have q: "qualifies s ms (i, j) \<longleftrightarrow>
             0.7 < jaccard (chunk_text (ms ! i)) (chunk_text (ms ! j)) \<and> r = None"
    using r findFirst_link_None [of s "chunk_id (ms ! i)" "chunk_id (ms ! j)"]
    by (simp add: qualifies_def)
  show ?case
    using r q Cons.IH by (auto simp: text_similarity_jaccard candidate_of_def)
qed

lemma discover_outer_candidates:
  "discover_outer (findFirst_link s) now ms is acc =
     Inr (acc @ map (candidate_of now ms) (filter (qualifies s ms)
            (concat (map (\<lambda>i. map (Pair i) [i + 1 ..< min (length ms) (i + 10)]) is))))"
  by (induction "is" arbitrary: acc) (simp_all add: discover_inner_candidates)

lemma discover_candidates:
  "discoverMemoryConnections (findFirst_link s) now ms = Inr (take 10 (candidates s now ms))"
  by (simp add: discoverMemoryConnections_def discover_outer_candidates candidates_def
      window_pairs_def)

lemma window_pairs_iff: "(i, j) \<in> set (window_pairs n) \<longleftrightarrow> i < j \<and> j < n \<and> j < i + 10"
proof
  assume "(i, j) \<in> set (window_pairs n)"
  then show "i < j \<and> j < n \<and> j < i + 10" by (auto simp: window_pairs_def)
next
  assume a: "i < j \<and> j < n \<and> j < i + 10"
  then have "i \<in> set [0 ..< n - 1]" "(i, j) \<in> set (map (Pair i) [i + 1 ..< min n (i + 10)])"
    by auto
  then show "(i, j) \<in> set (window_pairs n)"
    unfolding window_pairs_def set_concat by (intro UN_I [of "map (Pair i) [i + 1 ..< min n (i + 10)]"]) auto
qed

lemma window_row_head:
  assumes "i < n - 1"
  shows "map (Pair i) [i + 1 ..< min n (i + 10)] = (i, Suc i) # map (Pair i) [i + 2 ..< min n (i + 10)]"
proof -
  have "i + 1 < min n (i + 10)" using assms by simp
  then have "[i + 1 ..< min n (i + 10)] = (i + 1) # [Suc (i + 1) ..< min n (i + 10)]"
    by (rule upt_conv_Cons)
  then show ?thesis by simp
qed

lemma window_pairs_distinct: "distinct (window_pairs n)"
  unfolding window_pairs_def
proof (rule distinct_concat)
  have "inj_on (\<lambda>i. map (Pair i) [i + 1 ..< min n (i + 10)]) (set [0 ..< n - 1])"
  proof (rule inj_onI)
    fix x y
    assume "x \<in> set [0 ..< n - 1]" "y \<in> set [0 ..< n - 1]"
      and eq: "map (Pair x) [x + 1 ..< min n (x + 10)] = map (Pair y) [y + 1 ..< min n (y + 10)]"
    then have hx: "x < n - 1" and hy: "y < n - 1" by simp_all
    have "(x, Suc x) # map (Pair x) [x + 2 ..< min n (x + 10)]
            = (y, Suc y) # map (Pair y) [y + 2 ..< min n (y + 10)]"
      using eq unfolding window_row_head [OF hx] window_row_head [OF hy] .
    then show "x = y" by simp
  qed
  then show "distinct (map (\<lambda>i. map (Pair i) [i + 1 ..< min n (i + 10)]) [0 ..< n - 1])"
    by (simp add: distinct_map)
next
  fix ys assume "ys \<in> set (map (\<lambda>i. map (Pair i) [i + 1 ..< min n (i + 10)]) [0 ..< n - 1])"
  then show "distinct ys" by (auto simp: distinct_map inj_on_def)
next
  fix ys zs
  assume "ys \<in> set (map (\<lambda>i. map (Pair i) [i + 1 ..< min n (i + 10)]) [0 ..< n - 1])"
     "zs \<in> set (map (\<lambda>i. map (Pair i) [i + 1 ..< min n (i + 10)]) [0 ..< n - 1])" "ys \<noteq> zs"
  then show "set ys \<inter> set zs = {}" by auto
qed

lemma window_pairs_per_source: "length (filter (\<lambda>p. fst p = i) (window_pairs n)) \<le> 9"
proof -
  have "length (filter (\<lambda>p. fst p = i) (concat (map (\<lambda>k. map (Pair k) [k + 1 ..< min n (k + 10)]) ks)))
          \<le> (if i \<in> set ks then 9 else 0)" if "distinct ks" for ks
    using that
  proof (induction ks)
    case Nil
    then show ?case by simp
  next
    case (Cons k ks)
    have "length (filter (\<lambda>p. fst p = i) (map (Pair k) [k + 1 ..< min n (k + 10)]))
            \<le> (if i = k then 9 else 0)"
      by (auto simp: filter_map o_def)
    then show ?case using Cons by (auto split: if_splits)
  qed
  from this [of "[0 ..< n - 1]"] show ?thesis
    by (auto simp: window_pairs_def split: if_splits)
qed

lemma window_pairs_6:
  "window_pairs 6 = [(0, 1), (0, 2), (0, 3), (0, 4), (0, 5), (1, 2), (1, 3), (1, 4), (1, 5),
                     (2, 3), (2, 4), (2, 5), (3, 4), (3, 5), (4, 5)]"
  by code_simp

lemma jaccard_a: "jaccard ''a'' ''a'' = 1"
  by (simp add: jaccard_def tokens_def split_whitespace_def toLowerCase_def lower_char_def is_whitespace_def)

lemma ex_six_discover:
  "map_sum id (map endpoints)
     (discoverMemoryConnections (findFirst_link ex_six_store) 5000 (memoryChunk ex_six_store))
   = Inr [(''m0'', ''m1''), (''m0'', ''m2''), (''m0'', ''m3''), (''m0'', ''m4''), (''m0'', ''m5''),
          (''m1'', ''m2''), (''m1'', ''m3''), (''m1'', ''m4''), (''m1'', ''m5''), (''m2'', ''m3'')]"
proof -
  let ?ms = "memoryChunk ex_six_store"
  have len: "length ?ms = 6" by (simp add: ex_six_store_def)
  have "\<forall>p \<in> set (window_pairs 6). qualifies ex_six_store ?ms p"
    by (simp add: window_pairs_6 qualifies_def linked_def ex_six_store_def ex_chunk_def jaccard_a)
  then have "filter (qualifies ex_six_store ?ms) (window_pairs 6) = window_pairs 6"
    by simp
  then have c: "candidates ex_six_store 5000 ?ms = map (candidate_of 5000 ?ms) (window_pairs 6)"
    by (simp add: candidates_def len)
  have e: "map endpoints (take 10 (map (candidate_of 5000 ?ms) (window_pairs 6)))
     = [(''m0'', ''m1''), (''m0'', ''m2''), (''m0'', ''m3''), (''m0'', ''m4''), (''m0'', ''m5''),
        (''m1'', ''m2''), (''m1'', ''m3''), (''m1'', ''m4''), (''m1'', ''m5''), (''m2'', ''m3'')]"
    by (simp add: window_pairs_6 candidate_of_def candidate_link_def endpoints_def
        ex_six_store_def ex_chunk_def)
  show ?thesis unfolding discover_candidates c by (simp add: e)
qed

lemma candidate_of_fields:
  "sourceId (candidate_of now memories (i, j)) = chunk_id (memories ! i)"
  "targetId (candidate_of now memories (i, j)) = chunk_id (memories ! j)"
  "strength (candidate_of now memories (i, j))
     = jaccard (chunk_text (memories ! i)) (chunk_text (memories ! j))"
  "linkType (candidate_of now memories (i, j)) = semantic"
  by (simp_all add: candidate_of_def candidate_link_def)

text \<open>
  Claim C6, as the code has it. The discovery phase visits the pairs of positions
  \<open>(i, j)\<close> with \<open>i < j < i + 10\<close> of the gathered list, each once and in the order of the
  nested loop, so at most 9 partners per source chunk. A visited pair qualifies when the
  Jaccard similarity of the token sets of its texts exceeds \<open>0.7\<close> and the link table has
  no link between its chunks in either direction; each qualifying pair gives one
  candidate, a \<open>semantic\<close> link from chunk \<open>i\<close> to chunk \<open>j\<close> whose strength is the
  similarity. The phase returns the first 10 candidates.
\<close>

theorem discoverMemoryConnections_window:
  "discoverMemoryConnections (findFirst_link s) now memories
     = Inr (take 10 (map (candidate_of now memories)
                       (filter (qualifies s memories) (window_pairs (length memories))))) \<and>
   length (take 10 (map (candidate_of now memories)
                      (filter (qualifies s memories) (window_pairs (length memories))))) \<le> 10 \<and>
   ((i, j) \<in> set (window_pairs n) \<longleftrightarrow> i < j \<and> j < n \<and> j < i + 10) \<and>
   distinct (window_pairs n) \<and>
   length (filter (\<lambda>p. fst p = i) (window_pairs n)) \<le> 9 \<and>
   (qualifies s memories (i, j) \<longleftrightarrow>
      0.7 < jaccard (chunk_text (memories ! i)) (chunk_text (memories ! j)) \<and>
      \<not> (\<exists>l \<in> set (memoryLink s).
            (sourceId l = chunk_id (memories ! i) \<and> targetId l = chunk_id (memories ! j)) \<or>
            (sourceId l = chunk_id (memories ! j) \<and> targetId l = chunk_id (memories ! i)))) \<and>
   calculateTextSimilarity t1 t2
     = Some (real (card (tokens t1 \<inter> tokens t2)) / real (card (tokens t1 \<union> tokens t2))) \<and>
   jaccard t1 t2 = real (card (tokens t1 \<inter> tokens t2)) / real (card (tokens t1 \<union> tokens t2)) \<and>
   sourceId (candidate_of now memories (i, j)) = chunk_id (memories ! i) \<and>
   targetId (candidate_of now memories (i, j)) = chunk_id (memories ! j) \<and>
   strength (candidate_of now memories (i, j))
     = jaccard (chunk_text (memories ! i)) (chunk_text (memories ! j)) \<and>
   linkType (candidate_of now memories (i, j)) = semantic"
proof (intro conjI)
  show "discoverMemoryConnections (findFirst_link s) now memories
     = Inr (take 10 (map (candidate_of now memories)
                       (filter (qualifies s memories) (window_pairs (length memories)))))"
    by (simp add: discover_candidates candidates_def)
  show "((i, j) \<in> set (window_pairs n)) = (i < j \<and> j < n \<and> j < i + 10)"
    by (rule window_pairs_iff)
  show "distinct (window_pairs n)" by (rule window_pairs_distinct)
  show "length (filter (\<lambda>p. fst p = i) (window_pairs n)) \<le> 9" by (rule window_pairs_per_source)
  show "qualifies s memories (i, j) \<longleftrightarrow>
      0.7 < jaccard (chunk_text (memories ! i)) (chunk_text (memories ! j)) \<and>
      \<not> (\<exists>l \<in> set (memoryLink s).
            (sourceId l = chunk_id (memories ! i) \<and> targetId l = chunk_id (memories ! j)) \<or>
            (sourceId l = chunk_id (memories ! j) \<and> targetId l = chunk_id (memories ! i)))"
    by (simp add: qualifies_def linked_def)
  show "calculateTextSimilarity t1 t2
     = Some (real (card (tokens t1 \<inter> tokens t2)) / real (card (tokens t1 \<union> tokens t2)))"
    by (simp add: text_similarity_jaccard jaccard_def)
  show "jaccard t1 t2 = real (card (tokens t1 \<inter> tokens t2)) / real (card (tokens t1 \<union> tokens t2))"
    by (simp add: jaccard_def)
qed (simp_all add: candidate_of_fields)

theorem discoverMemoryConnections_window_witness:
  "(0, 1) \<in> set (window_pairs 6) \<and>
   qualifies ex_six_store (memoryChunk ex_six_store) (0, 1) \<and>
   strength (candidate_of 5000 (memoryChunk ex_six_store) (0, 1)) = 1 \<and>
   discoverMemoryConnections (findFirst_link ex_six_store) 5000 (memoryChunk ex_six_store)
     = Inr (take 10 (map (candidate_of 5000 (memoryChunk ex_six_store))
                       (filter (qualifies ex_six_store (memoryChunk ex_six_store))
                          (window_pairs (length (memoryChunk ex_six_store))))))"
proof -
  note t = discoverMemoryConnections_window [of ex_six_store 5000 "memoryChunk ex_six_store" 0 1 6]
  have a: "(0, 1) \<in> set (window_pairs 6)" using t by simp
  have j: "jaccard (chunk_text (memoryChunk ex_six_store ! 0)) (chunk_text (memoryChunk ex_six_store ! 1)) = 1"
    by (simp add: ex_six_store_def ex_chunk_def jaccard_a)
  have "\<not> (\<exists>l \<in> set (memoryLink ex_six_store).
            (sourceId l = chunk_id (memoryChunk ex_six_store ! 0) \<and>
             targetId l = chunk_id (memoryChunk ex_six_store ! 1)) \<or>
            (sourceId l = chunk_id (memoryChunk ex_six_store ! 1) \<and>
             targetId l = chunk_id (memoryChunk ex_six_store ! 0)))"
    by (simp add: ex_six_store_def)
  then have q: "qualifies ex_six_store (memoryChunk ex_six_store) (0, 1)" using t j by simp
  have st: "strength (candidate_of 5000 (memoryChunk ex_six_store) (0, 1)) = 1" using t j by simp
  show ?thesis using a q st t by blast
qed

text \<open>
  The claim as written fails: of six chunks with the same text and no links, every pair
  qualifies, fifteen in all, and the ten candidates returned have none for the chunks
  \<open>m2\<close> and \<open>m4\<close>.
\<close>

theorem discoverMemoryConnections_cap_counterexample:
  "chunk_id (memoryChunk ex_six_store ! 2) = ''m2'' \<and>
   chunk_id (memoryChunk ex_six_store ! 4) = ''m4'' \<and>
   calculateTextSimilarity (chunk_text (memoryChunk ex_six_store ! 2))
     (chunk_text (memoryChunk ex_six_store ! 4)) = Some 1 \<and>
   findFirst_link ex_six_store ''m2'' ''m4'' = Inr None \<and>
   map_sum id (map endpoints)
     (discoverMemoryConnections (findFirst_link ex_six_store) 5000 (memoryChunk ex_six_store))
   = Inr [(''m0'', ''m1''), (''m0'', ''m2''), (''m0'', ''m3''), (''m0'', ''m4''), (''m0'', ''m5''),
          (''m1'', ''m2''), (''m1'', ''m3''), (''m1'', ''m4''), (''m1'', ''m5''), (''m2'', ''m3'')]"
proof -
  have "calculateTextSimilarity (chunk_text (memoryChunk ex_six_store ! 2))
     (chunk_text (memoryChunk ex_six_store ! 4)) = Some 1"
    by (simp add: text_similarity_jaccard ex_six_store_def ex_chunk_def jaccard_a)
  moreover have "findFirst_link ex_six_store ''m2'' ''m4'' = Inr None"
    by (simp add: findFirst_link_def ex_six_store_def)
  moreover have "chunk_id (memoryChunk ex_six_store ! 2) = ''m2''"
    "chunk_id (memoryChunk ex_six_store ! 4) = ''m4''"
    by (simp_all add: ex_six_store_def ex_chunk_def)
  ultimately show ?thesis using ex_six_discover by simp
qed

end
